theory Spec2Isabelle
  imports Main
begin

text \<open>
  A model of the client of the knowledge-base application: the token store and the HTTP
  client that refreshes the access token on a 401 (\<open>api/client.ts\<close>), the chat store and
  the handler of the Chat view that sends a message (\<open>stores/chat.ts\<close>, \<open>Chat.vue\<close>),
  logout (\<open>api/auth.ts\<close> and the auth store) and the consumer of the streamed reply
  (\<open>chatApi.streamMessage\<close>). The code is asynchronous on a single thread: each function is
  cut at its \<open>await\<close>s into pieces that run without interruption, and what happens
  between two pieces (the outcome of a request, the state found at resumption) is an
  argument of the model.
\<close>

section \<open>JavaScript values shared by the models\<close>

text \<open>
  JavaScript strings are modelled as \<open>string\<close>. A value of type \<open>string | null\<close> is a
  \<open>string option\<close>; in a condition JavaScript takes \<open>null\<close> and the empty string as false.
\<close>

definition truthy_string :: "string option \<Rightarrow> bool" where
  "truthy_string v = (case v of None \<Rightarrow> False | Some s \<Rightarrow> s \<noteq> [])"

text \<open>\<open>s.startsWith(p)\<close> and \<open>s.includes(p)\<close>.\<close>

definition startsWith :: "string \<Rightarrow> string \<Rightarrow> bool" where
  "startsWith p s = (take (length p) s = p)"

fun includes_str :: "string \<Rightarrow> string \<Rightarrow> bool" where
  "includes_str p [] = (p = [])"
| "includes_str p (c # cs) = (startsWith p (c # cs) \<or> includes_str p cs)"

section \<open>Token store (api/client.ts, lines 25 to 46)\<close>

text \<open>\<open>localStorage\<close> is a map from keys to strings; \<open>getItem\<close> of a missing key is \<open>null\<close>.\<close>

type_synonym storage = "string \<rightharpoonup> string"

definition ACCESS_TOKEN_KEY :: string where
  "ACCESS_TOKEN_KEY = ''access_token''"

definition REFRESH_TOKEN_KEY :: string where
  "REFRESH_TOKEN_KEY = ''refresh_token''"

definition getAccessToken :: "storage \<Rightarrow> string option" where
  "getAccessToken ls = ls ACCESS_TOKEN_KEY"

definition getRefreshToken :: "storage \<Rightarrow> string option" where
  "getRefreshToken ls = ls REFRESH_TOKEN_KEY"

definition setTokens :: "string \<Rightarrow> string \<Rightarrow> storage \<Rightarrow> storage" where
  "setTokens accessToken refreshToken ls =
     (ls(ACCESS_TOKEN_KEY \<mapsto> accessToken))(REFRESH_TOKEN_KEY \<mapsto> refreshToken)"

definition clearTokens :: "storage \<Rightarrow> storage" where
  "clearTokens ls = (ls(ACCESS_TOKEN_KEY := None))(REFRESH_TOKEN_KEY := None)"

section \<open>HTTP client with refresh on 401 (api/client.ts, lines 48 to 139)\<close>

text \<open>
  A request configuration, with the fields the interceptors read and write: \<open>url\<close>
  (optional in axios), the custom flag \<open>_retry\<close> (absent counts as false) and the
  \<open>Authorization\<close> header. \<open>InternalAxiosRequestConfig\<close> declares \<open>headers\<close> as a required
  field, so the tests \<open>if (config.headers)\<close> of the source always pass and the header is a
  plain optional string.
\<close>

record request =
  url :: "string option"
  retry :: bool
  Authorization :: "string option"

text \<open>The error handed to the response interceptor: \<open>error.response?.status\<close> and \<open>error.config\<close>.\<close>

record axios_error =
  status :: "nat option"
  config :: request

text \<open>How a promise returned by the response interceptor was rejected.\<close>

datatype rejection = OriginalError axios_error | RefreshError

text \<open>
  The state of the module and of its environment. The first four fields are the program's
  own variables: \<open>localStorage\<close>, \<open>isRefreshing\<close>, \<open>refreshSubscribers\<close> (each continuation is
  the closure of lines 95 to 100, represented by the \<open>originalRequest\<close> it captured) and
  \<open>window.location.href\<close> (\<open>None\<close> as long as the module has not assigned it).
  The others record what the module has done:
  \<^item> \<open>awaiting\<close>: the interceptor invocations suspended at the \<open>await\<close> of line 108, each
    with its \<open>originalRequest\<close> (already marked \<open>_retry\<close>);
  \<^item> \<open>refresh_calls\<close>: one entry per \<open>axios.post\<close> to \<open>/auth/refresh\<close>, holding the
    \<open>Authorization\<close> header it was sent with;
  \<^item> \<open>dispatched\<close>: the requests re-issued by \<open>apiClient(originalRequest)\<close>, as they leave
    the request interceptor;
  \<^item> \<open>rejections\<close>: the requests whose promise the interceptor rejected, with the reason.
\<close>

record client =
  localStorage :: storage
  isRefreshing :: bool
  refreshSubscribers :: "request list"
  href :: "string option"
  awaiting :: "request list"
  refresh_calls :: "string list"
  dispatched :: "request list"
  rejections :: "(request \<times> rejection) list"

definition Bearer :: "string \<Rightarrow> string" where
  "Bearer token = ''Bearer '' @ token"

text \<open>The request interceptor (lines 62 to 69).\<close>

definition request_interceptor :: "storage \<Rightarrow> request \<Rightarrow> request" where
  "request_interceptor ls cfg =
     (let token = getAccessToken ls
      in if truthy_string token then cfg\<lparr>Authorization := Some (Bearer (the token))\<rparr> else cfg)"

text \<open>
  \<open>apiClient(originalRequest)\<close>: the request passes the request interceptor and is sent.
  No other task runs between the call and the interceptor, so the token read is the one
  stored at the call.
\<close>

definition apiClient :: "request \<Rightarrow> client \<Rightarrow> client" where
  "apiClient cfg st = st\<lparr>dispatched := dispatched st @ [request_interceptor (localStorage st) cfg]\<rparr>"

text \<open>\<open>subscribeTokenRefresh\<close> (lines 52 to 54) and the continuation of lines 95 to 100.\<close>

definition subscribeTokenRefresh :: "request \<Rightarrow> client \<Rightarrow> client" where
  "subscribeTokenRefresh callback st = st\<lparr>refreshSubscribers := refreshSubscribers st @ [callback]\<rparr>"

definition continuation :: "string \<Rightarrow> client \<Rightarrow> request \<Rightarrow> client" where
  "continuation token st originalRequest =
     apiClient (originalRequest\<lparr>Authorization := Some (Bearer token)\<rparr>) st"

text \<open>\<open>onTokenRefreshed\<close> (lines 56 to 59).\<close>

definition onTokenRefreshed :: "string \<Rightarrow> client \<Rightarrow> client" where
  "onTokenRefreshed token st =
     (foldl (continuation token) st (refreshSubscribers st))\<lparr>refreshSubscribers := []\<rparr>"

text \<open>\<open>originalRequest.url?.includes('/auth/refresh')\<close>.\<close>

definition is_refresh_request :: "request \<Rightarrow> bool" where
  "is_refresh_request r = (case url r of None \<Rightarrow> False | Some u \<Rightarrow> includes_str ''/auth/refresh'' u)"

text \<open>
  The response interceptor's error handler, from its entry to its first suspension or
  return (lines 78 to 116 and 137).
\<close>

definition response_error :: "axios_error \<Rightarrow> client \<Rightarrow> client" where
  "response_error err st =
     (let originalRequest = config err in
      if status err = Some 401 \<and> \<not> retry originalRequest then
        let refreshToken = getRefreshToken (localStorage st) in
        if \<not> truthy_string refreshToken \<or> is_refresh_request originalRequest then
          st\<lparr>localStorage := clearTokens (localStorage st),
             href := Some ''/login'',
             rejections := rejections st @ [(originalRequest, OriginalError err)]\<rparr>
        else if isRefreshing st then
          subscribeTokenRefresh originalRequest st
        else
          st\<lparr>isRefreshing := True,
             awaiting := awaiting st @ [originalRequest\<lparr>retry := True\<rparr>],
             refresh_calls := refresh_calls st @ [Bearer (the refreshToken)]\<rparr>
      else st\<lparr>rejections := rejections st @ [(originalRequest, OriginalError err)]\<rparr>)"

text \<open>
  The refresh call resolves with a token pair (lines 118 to 128): the suspended
  invocation resumes. With no invocation suspended there is nothing to resume.
\<close>

definition refresh_fulfilled :: "string \<Rightarrow> string \<Rightarrow> client \<Rightarrow> client" where
  "refresh_fulfilled access_token refresh_token st =
     (case awaiting st of
        [] \<Rightarrow> st
      | originalRequest # others \<Rightarrow>
          (let st1 = st\<lparr>awaiting := others,
                        localStorage := setTokens access_token refresh_token (localStorage st)\<rparr>;
               st2 = st1\<lparr>isRefreshing := False\<rparr>;
               st3 = onTokenRefreshed access_token st2
           in apiClient (originalRequest\<lparr>Authorization := Some (Bearer access_token)\<rparr>) st3))"

text \<open>
  The refresh call fails, or its body has no token pair to destructure (lines 129 to 134).
\<close>

definition refresh_rejected :: "client \<Rightarrow> client" where
  "refresh_rejected st =
     (case awaiting st of
        [] \<Rightarrow> st
      | originalRequest # others \<Rightarrow>
          st\<lparr>awaiting := others,
             isRefreshing := False,
             localStorage := clearTokens (localStorage st),
             href := Some ''/login'',
             rejections := rejections st @ [(originalRequest, RefreshError)]\<rparr>)"

text \<open>
  An execution is a sequence of events of the event loop; each runs one of the three
  pieces of code above to its next suspension.
\<close>

datatype event =
    ResponseError axios_error
  | RefreshFulfilled string string
  | RefreshRejected

fun step :: "client \<Rightarrow> event \<Rightarrow> client" where
  "step st (ResponseError err) = response_error err st"
| "step st (RefreshFulfilled access_token refresh_token) = refresh_fulfilled access_token refresh_token st"
| "step st RefreshRejected = refresh_rejected st"

definition run :: "client \<Rightarrow> event list \<Rightarrow> client" where
  "run st evs = foldl step st evs"

text \<open>A response with status 401 for the request \<open>r\<close>.\<close>

definition unauthorized :: "request \<Rightarrow> event" where
  "unauthorized r = ResponseError \<lparr>status = Some 401, config = r\<rparr>"

text \<open>The module as loaded (lines 49 and 50), over a given \<open>localStorage\<close>.\<close>

definition initial :: "storage \<Rightarrow> client" where
  "initial ls = \<lparr>localStorage = ls, isRefreshing = False, refreshSubscribers = [],
                href = None, awaiting = [], refresh_calls = [], dispatched = [],
                rejections = []\<rparr>"

text \<open>What \<open>continuation\<close> and the resumed initiator send for a request, given the new token.\<close>

definition reissued :: "string \<Rightarrow> request \<Rightarrow> request" where
  "reissued token r = r\<lparr>Authorization := Some (Bearer token)\<rparr>"

text \<open>
  The gate of the refresh protocol: at most one interceptor invocation is suspended on a
  refresh call, and \<open>isRefreshing\<close> is set exactly while one is.
\<close>

definition gate_ok :: "client \<Rightarrow> bool" where
  "gate_ok st = (length (awaiting st) \<le> 1 \<and> (isRefreshing st \<longleftrightarrow> awaiting st \<noteq> []))"

text \<open>Concrete inputs for the examples: a stored token pair and a request sent with it.\<close>

definition ls0 :: storage where
  "ls0 = setTokens ''a0'' ''r0'' Map.empty"

definition req :: "string \<Rightarrow> request" where
  "req u = \<lparr>url = Some u, retry = False, Authorization = Some (Bearer ''a0'')\<rparr>"

section \<open>Promises\<close>

text \<open>
  How an awaited promise settled: fulfilled with a value, or rejected with a reason (the
  exception that \<open>await\<close> then throws).
\<close>

datatype ('e, 'a) settled = Fulfilled 'a | Rejected 'e

section \<open>Chat store (stores/chat.ts)\<close>

datatype MessageRole = role_user | role_ai | role_system

record ChatMessage =
  message_id :: int
  role :: MessageRole
  content :: string
  is_deep_thought :: bool
  thinking_content :: "string option"
  tokens_used :: nat
  created_at :: string

record ChatSession =
  session_id :: int
  title :: string
  message_count :: "nat option"
  preview :: "string option"
  session_created_at :: string
  last_active_at :: string

record SendMessageRequest =
  message :: string
  request_is_deep_thought :: "bool option"
  doc_ids :: "int list option"
  model :: "string option"

text \<open>The envelope \<open>ApiResponse<T>\<close> (types/index.ts, lines 10 to 15).\<close>

record 'a ApiResponse =
  success :: bool
  response_message :: string
  data :: 'a

text \<open>
  What the \<open>catch\<close> blocks of the store read from a caught value:
  \<open>err.response?.data?.message\<close>, \<open>None\<close> when a link of the chain is missing.
\<close>

type_synonym caught = "string option"

record chat_store =
  sessions :: "ChatSession list"
  currentSession :: "ChatSession option"
  messages :: "ChatMessage list"
  loading :: bool
  sending :: bool
  streamingContent :: string
  error :: "string option"
  page :: nat
  hasMore :: bool

text \<open>
  The clock read by \<open>sendMessage\<close>: \<open>Date.now()\<close> and \<open>new Date().toISOString()\<close>.
\<close>

record clock =
  now :: int
  iso_string :: string

text \<open>The provisional user message of lines 136 to 144.\<close>

definition userMessage :: "SendMessageRequest \<Rightarrow> clock \<Rightarrow> ChatMessage" where
  "userMessage d c =
     \<lparr>message_id = now c,
      role = role_user,
      content = message d,
      is_deep_thought = (case request_is_deep_thought d of None \<Rightarrow> False | Some b \<Rightarrow> b),
      thinking_content = None,
      tokens_used = 0,
      created_at = iso_string c\<rparr>"

text \<open>
  \<open>sendMessage\<close> from its entry to the \<open>await\<close> of line 148. \<open>None\<close>: it returned
  \<open>false\<close> in line 129, the store unchanged. \<open>Some st'\<close>: it is suspended on the request,
  with the store \<open>st'\<close>.
\<close>

definition sendMessage_start :: "SendMessageRequest \<Rightarrow> clock \<Rightarrow> chat_store \<Rightarrow> chat_store option" where
  "sendMessage_start d c st =
     (if currentSession st = None then None
      else Some (st\<lparr>sending := True, error := None, streamingContent := [],
                    messages := messages st @ [userMessage d c]\<rparr>))"

text \<open>
  \<open>sendMessage\<close> from the settling of the request to its return (lines 148 to 162), on
  the store as it is at that moment. \<open>pop\<close> removes the last element of the list, whatever
  it is, and does nothing on an empty list.
\<close>

definition sendMessage_resume ::
  "(caught, ChatMessage ApiResponse) settled \<Rightarrow> chat_store \<Rightarrow> bool \<times> chat_store" where
  "sendMessage_resume outcome st =
     (case outcome of
        Fulfilled response \<Rightarrow>
          if success response
          then (True, st\<lparr>messages := messages st @ [data response], sending := False\<rparr>)
          else (False, st\<lparr>sending := False\<rparr>)
      | Rejected err \<Rightarrow>
          (False, st\<lparr>error := Some (if truthy_string err then the err else ''Failed to send message''),
                      messages := butlast (messages st),
                      sending := False\<rparr>))"

text \<open>A whole call of \<open>sendMessage\<close> during which nothing else touches the store.\<close>

definition sendMessage ::
  "SendMessageRequest \<Rightarrow> clock \<Rightarrow> (caught, ChatMessage ApiResponse) settled \<Rightarrow> chat_store
     \<Rightarrow> bool \<times> chat_store" where
  "sendMessage d c outcome st =
     (case sendMessage_start d c st of
        None \<Rightarrow> (False, st)
      | Some st1 \<Rightarrow> sendMessage_resume outcome st1)"

text \<open>\<open>createSession\<close> from its entry to the \<open>await\<close> of line 70.\<close>

definition createSession_start :: "chat_store \<Rightarrow> chat_store" where
  "createSession_start st = st\<lparr>loading := True, error := None\<rparr>"

text \<open>
  \<open>createSession\<close> from the settling of its request to its return (lines 70 to 85):
  the identifier of the new session or \<open>null\<close>, and the store.
\<close>

definition createSession_resume ::
  "(caught, ChatSession ApiResponse) settled \<Rightarrow> chat_store \<Rightarrow> int option \<times> chat_store" where
  "createSession_resume outcome st =
     (case outcome of
        Fulfilled response \<Rightarrow>
          if success response
          then (Some (session_id (data response)),
                st\<lparr>sessions := data response # sessions st,
                   currentSession := Some (data response),
                   messages := [],
                   loading := False\<rparr>)
          else (None, st\<lparr>loading := False\<rparr>)
      | Rejected err \<Rightarrow>
          (None, st\<lparr>error := Some (if truthy_string err then the err
                                      else ''Failed to create session''),
                     loading := False\<rparr>))"

section \<open>Chat view (Chat.vue, \<open>handleSend\<close>)\<close>

record chat_view =
  message_input :: string
  isDeepThought :: bool
  selectedDocIds :: "int list"
  selectedModel :: string

text \<open>\<open>String.prototype.trim\<close> on the white space of the 8-bit range.\<close>

definition is_white_space :: "char \<Rightarrow> bool" where
  "is_white_space ch = (of_char ch \<in> {9, 10, 11, 12, 13, 32, 160 :: nat})"

definition trim :: "string \<Rightarrow> string" where
  "trim s = rev (dropWhile is_white_space (rev (dropWhile is_white_space s)))"

text \<open>The argument \<open>handleSend\<close> passes to \<open>sendMessage\<close> (lines 89 to 94 of the view).\<close>

definition send_payload :: "string \<Rightarrow> chat_view \<Rightarrow> SendMessageRequest" where
  "send_payload messageToSend v =
     \<lparr>message = messageToSend,
      request_is_deep_thought = Some (isDeepThought v),
      doc_ids = (if length (selectedDocIds v) > 0 then Some (selectedDocIds v) else None),
      model = (if selectedModel v \<noteq> [] then Some (selectedModel v) else None)\<rparr>"

text \<open>
  Where \<open>handleSend\<close> stands at a suspension or at its return: returned; suspended in
  \<open>createSession\<close>, with the title it passed and the \<open>trimmedMessage\<close> it holds; or
  suspended in \<open>sendMessage\<close>, with the request it passed.
\<close>

datatype handle_send =
    Returned
  | InCreateSession string string
  | InSendMessage SendMessageRequest

text \<open>
  The second half of \<open>handleSend\<close> (lines 83 to 94 of the view), from the clearing of
  the input to the suspension in \<open>sendMessage\<close>, or to the return when \<open>sendMessage\<close>
  returns at once. \<open>sending\<close> is not read here.
\<close>

definition handleSend_send ::
  "string \<Rightarrow> clock \<Rightarrow> chat_view \<times> chat_store \<Rightarrow> handle_send \<times> chat_view \<times> chat_store" where
  "handleSend_send trimmedMessage c vs =
     (let v' = (fst vs)\<lparr>message_input := []\<rparr>; d = send_payload trimmedMessage v' in
      case sendMessage_start d c (snd vs) of
        None \<Rightarrow> (Returned, v', snd vs)
      | Some st' \<Rightarrow> (InSendMessage d, v', st'))"

text \<open>
  \<open>handleSend\<close> from its entry to its first suspension or return. With a current
  session, nothing is awaited between the test of \<open>sending\<close> and the call of
  \<open>sendMessage\<close>. Without one, \<open>handleSend\<close> is suspended in \<open>createSession\<close>;
  when that call settles, whatever its result, it goes on with \<open>handleSend_send\<close>.
\<close>

definition handleSend_start ::
  "clock \<Rightarrow> chat_view \<times> chat_store \<Rightarrow> handle_send \<times> chat_view \<times> chat_store" where
  "handleSend_start c vs =
     (let v = fst vs; st = snd vs; trimmedMessage = trim (message_input v) in
      if trimmedMessage = [] \<or> sending st then (Returned, v, st)
      else if currentSession st = None then
        (InCreateSession (take 50 trimmedMessage) trimmedMessage, v, createSession_start st)
      else handleSend_send trimmedMessage c (v, st))"

section \<open>Logout (api/auth.ts, lines 59 to 66, and the auth store, lines 89 to 96)\<close>

record User =
  user_id :: int
  username :: string
  user_created_at :: string

record auth_store =
  user :: "User option"
  auth_loading :: bool
  auth_error :: "string option"

text \<open>
  \<open>authApi.logout\<close>, resumed when the POST to \<open>/auth/logout\<close> settles, on the
  \<open>localStorage\<close> of that moment: the \<open>finally\<close> block runs on both paths and the outcome
  is passed on (\<open>response.data\<close>, or the exception).
\<close>

definition authApi_logout :: "('e, 'a) settled \<Rightarrow> storage \<Rightarrow> ('e, 'a) settled \<times> storage" where
  "authApi_logout post ls =
     (case post of
        Fulfilled response_data \<Rightarrow> (Fulfilled response_data, clearTokens ls)
      | Rejected e \<Rightarrow> (Rejected e, clearTokens ls))"

text \<open>
  The store's \<open>logout\<close>, resumed when \<open>authApi.logout\<close> has settled with \<open>r\<close>, on the
  store and the \<open>localStorage\<close> of that moment: its own \<open>finally\<close> block runs on both
  paths, and the call settles as \<open>authApi.logout\<close> did, without a value.
\<close>

definition logout_finally ::
  "('e, 'a) settled \<Rightarrow> auth_store \<times> storage \<Rightarrow> ('e, unit) settled \<times> auth_store \<times> storage" where
  "logout_finally r s =
     (case r of Fulfilled _ \<Rightarrow> Fulfilled () | Rejected e \<Rightarrow> Rejected e,
      (fst s)\<lparr>user := None\<rparr>,
      clearTokens (snd s))"

text \<open>The store's \<open>logout\<close> as a whole, from the settling of the POST.\<close>

definition logout ::
  "('e, 'a) settled \<Rightarrow> auth_store \<times> storage \<Rightarrow> ('e, unit) settled \<times> auth_store \<times> storage" where
  "logout post s =
     (let (r, ls1) = authApi_logout post (snd s)
      in logout_finally r (fst s, ls1))"

text \<open>
  Concrete inputs for the examples: a store with a current session, a request, a clock, a
  view with a typed message, and an answer of the server with \<open>success\<close> unset (its
  \<open>data\<close> is not read).
\<close>

definition session0 :: ChatSession where
  "session0 = \<lparr>session_id = 1, title = ''test'', message_count = None, preview = None,
               session_created_at = ''2024-01-01T00:00:00.000Z'',
               last_active_at = ''2024-01-01T00:00:00.000Z''\<rparr>"

definition store0 :: chat_store where
  "store0 = \<lparr>sessions = [session0], currentSession = Some session0, messages = [],
             loading = False, sending = False, streamingContent = [], error = None,
             page = 1, hasMore = True\<rparr>"

definition say :: "string \<Rightarrow> SendMessageRequest" where
  "say m = \<lparr>message = m, request_is_deep_thought = None, doc_ids = None, model = None\<rparr>"

definition clock0 :: clock where
  "clock0 = \<lparr>now = 1704067200000, iso_string = ''2024-01-01T00:00:00.000Z''\<rparr>"

definition view0 :: chat_view where
  "view0 = \<lparr>message_input = ''again'', isDeepThought = False, selectedDocIds = [],
            selectedModel = []\<rparr>"

text \<open>
  A store without a current session, the answer of the server that creates one, and a
  second reading of the clock.
\<close>

definition store_new :: chat_store where
  "store_new = \<lparr>sessions = [], currentSession = None, messages = [],
                loading = False, sending = False, streamingContent = [], error = None,
                page = 1, hasMore = True\<rparr>"

definition created :: "ChatSession ApiResponse" where
  "created = \<lparr>success = True, response_message = ''Session created'', data = session0\<rparr>"

definition clock1 :: clock where
  "clock1 = \<lparr>now = 1704067200350, iso_string = ''2024-01-01T00:00:00.350Z''\<rparr>"

definition refused :: "ChatMessage ApiResponse" where
  "refused = \<lparr>success = False, response_message = ''Session not found'',
              data = userMessage (say []) clock0\<rparr>"

section \<open>JSON values and \<open>JSON.parse\<close>\<close>

text \<open>
  \<open>JSON.parse\<close> is a built-in of the platform. It is modelled by a parser for the JSON
  grammar (white space, the literals, numbers, strings with their escapes, arrays and
  objects) that builds the value JavaScript builds:
  \<^item> a string is its sequence of 16-bit code units, so that an escape \<open>\uXXXX\<close> is the
    code unit \<open>XXXX\<close>; a character of the input text stands for the code unit of its code;
  \<^item> a number is the double nearest to the decimal numeral, ties to the even mantissa,
    zero below the range and infinite above it;
  \<^item> an object is the list of its properties in the order JavaScript enumerates them:
    a repeated key keeps its first place and takes the last value, and the keys that are
    array indices come first, in ascending order.
\<close>

type_synonym code_unit = nat

definition code_units :: "string \<Rightarrow> code_unit list" where
  "code_units s = map of_char s"

text \<open>
  A double that JSON can denote: \<open>Finite negative k p\<close> is \<open>k * 2 ^ p\<close> with the sign
  \<open>negative\<close>, where \<open>k\<close> is odd, or \<open>k\<close> and \<open>p\<close> are both zero; \<open>Infinite negative\<close> is
  the infinity of that sign. Zero has a sign, as in JavaScript.
\<close>

datatype double = Finite bool nat int | Infinite bool

datatype json =
    JNull
  | JBool bool
  | JNumber double
  | JString "code_unit list"
  | JArray "json list"
  | JObject "(code_unit list \<times> json) list"

text \<open>White space, digits, hexadecimal digits, the one-letter escapes.\<close>

definition is_ws :: "char \<Rightarrow> bool" where
  "is_ws ch = (ch = CHR 0x20 \<or> ch = CHR 0x09 \<or> ch = CHR 0x0A \<or> ch = CHR 0x0D)"

definition skip_ws :: "string \<Rightarrow> string" where
  "skip_ws s = dropWhile is_ws s"

definition is_digit :: "char \<Rightarrow> bool" where
  "is_digit ch = (48 \<le> (of_char ch :: nat) \<and> (of_char ch :: nat) \<le> 57)"

definition hex_digit :: "char \<Rightarrow> nat option" where
  "hex_digit ch =
     (let n = (of_char ch :: nat) in
      if 48 \<le> n \<and> n \<le> 57 then Some (n - 48)
      else if 65 \<le> n \<and> n \<le> 70 then Some (n - 55)
      else if 97 \<le> n \<and> n \<le> 102 then Some (n - 87)
      else None)"

fun hex4 :: "string \<Rightarrow> code_unit option" where
  "hex4 [a, b, c, d] =
     (case (hex_digit a, hex_digit b, hex_digit c, hex_digit d) of
        (Some x, Some y, Some z, Some w) \<Rightarrow> Some (((x * 16 + y) * 16 + z) * 16 + w)
      | _ \<Rightarrow> None)"
| "hex4 _ = None"

definition escape :: "char \<Rightarrow> code_unit option" where
  "escape ch =
     (if ch = CHR 0x22 then Some 0x22
      else if ch = CHR 0x5C then Some 0x5C
      else if ch = CHR ''/'' then Some 0x2F
      else if ch = CHR ''b'' then Some 0x08
      else if ch = CHR ''f'' then Some 0x0C
      else if ch = CHR ''n'' then Some 0x0A
      else if ch = CHR ''r'' then Some 0x0D
      else if ch = CHR ''t'' then Some 0x09
      else None)"

text \<open>Prepends an element to the list of a successful parse.\<close>

definition cons_to :: "'a \<Rightarrow> ('a list \<times> string) option \<Rightarrow> ('a list \<times> string) option" where
  "cons_to x r = (case r of None \<Rightarrow> None | Some (xs, rest) \<Rightarrow> Some (x # xs, rest))"

text \<open>
  The characters of a string, after its opening quote, up to the closing quote: the code
  units of the string and the rest of the input. An unescaped control character, an
  unknown escape and a missing closing quote are syntax errors (\<open>None\<close>).
\<close>

function parse_string :: "string \<Rightarrow> (code_unit list \<times> string) option" where
  "parse_string [] = None"
| "parse_string (c # cs) =
     (if c = CHR 0x22 then Some ([], cs)
      else if c = CHR 0x5C then
        (case cs of
           [] \<Rightarrow> None
         | e # cs' \<Rightarrow>
             if e = CHR ''u'' then
               (case hex4 (take 4 cs') of
                  None \<Rightarrow> None
                | Some n \<Rightarrow> cons_to n (parse_string (drop 4 cs')))
             else
               (case escape e of
                  None \<Rightarrow> None
                | Some n \<Rightarrow> cons_to n (parse_string cs')))
      else if (of_char c :: nat) < 32 then None
      else cons_to (of_char c) (parse_string cs))"
  by pat_completeness auto
termination
  by (relation "measure length") auto

subsection \<open>Numbers\<close>

text \<open>The number of binary digits of a natural number.\<close>

fun bit_length :: "nat \<Rightarrow> nat" where
  "bit_length n = (if n = 0 then 0 else Suc (bit_length (n div 2)))"

declare bit_length.simps [simp del]

text \<open>
  For positive \<open>a\<close> and \<open>b\<close>, the integer \<open>l\<close> with \<open>2 ^ l \<le> a / b < 2 ^ (l + 1)\<close>: the
  quotient lies strictly between the powers \<open>t - 1\<close> and \<open>t + 1\<close> of two, \<open>t\<close> being the
  difference of the bit lengths.
\<close>

definition floor_log2 :: "nat \<Rightarrow> nat \<Rightarrow> int" where
  "floor_log2 a b =
     (let t = int (bit_length a) - int (bit_length b) in
      if 0 \<le> t then (if b * 2 ^ nat t \<le> a then t else t - 1)
      else (if b \<le> a * 2 ^ nat (- t) then t else t - 1))"

text \<open>The integer nearest to \<open>a / b\<close>, the even one of the two when both are as near.\<close>

definition round_half_even :: "nat \<Rightarrow> nat \<Rightarrow> nat" where
  "round_half_even a b =
     (let q = a div b; r = a mod b in
      if 2 * r < b then q
      else if b < 2 * r then q + 1
      else if even q then q else q + 1)"

text \<open>The double \<open>k * 2 ^ p\<close> in its unique form: the factors two of \<open>k\<close> go to the exponent.\<close>

function normalise :: "bool \<Rightarrow> nat \<Rightarrow> int \<Rightarrow> double" where
  "normalise negative k p =
     (if k = 0 then Finite negative 0 0
      else if even k then normalise negative (k div 2) (p + 1)
      else Finite negative k p)"
  by pat_completeness auto
termination
  by (relation "measure (\<lambda>(negative, k, p). k)") auto

declare normalise.simps [simp del]

text \<open>
  The double nearest to the quotient \<open>a / b\<close> of two positive integers. The mantissa has
  53 bits, or fewer at the bottom of the range, where the exponent stays at \<open>- 1074\<close>; a
  rounded value of \<open>2 ^ 1024\<close> or more is infinite.
\<close>

definition binary_exponent :: "nat \<Rightarrow> nat \<Rightarrow> int" where
  "binary_exponent a b = max (floor_log2 a b - 52) (- 1074)"

definition mantissa :: "nat \<Rightarrow> nat \<Rightarrow> int \<Rightarrow> nat" where
  "mantissa a b p =
     (if 0 \<le> p then round_half_even a (b * 2 ^ nat p)
      else round_half_even (a * 2 ^ nat (- p)) b)"

definition pack :: "bool \<Rightarrow> nat \<Rightarrow> int \<Rightarrow> double" where
  "pack negative k p =
     (if 1024 < p + int (bit_length k) then Infinite negative else normalise negative k p)"

definition nearest_double :: "bool \<Rightarrow> nat \<Rightarrow> nat \<Rightarrow> double" where
  "nearest_double negative a b =
     pack negative (mantissa a b (binary_exponent a b)) (binary_exponent a b)"

text \<open>The double nearest to \<open>m * 10 ^ e\<close>.\<close>

definition decimal_to_double :: "bool \<Rightarrow> nat \<Rightarrow> int \<Rightarrow> double" where
  "decimal_to_double negative m e =
     (if m = 0 then Finite negative 0 0
      else if 0 \<le> e then nearest_double negative (m * 10 ^ nat e) 1
      else nearest_double negative m (10 ^ nat (- e)))"

text \<open>The value of a sequence of decimal digits.\<close>

definition digits_value :: "string \<Rightarrow> nat" where
  "digits_value ds = foldl (\<lambda>n ch. 10 * n + (of_char ch - 48)) 0 ds"

text \<open>
  A number at the head of the input: an optional minus, an integer part without a leading
  zero, an optional fraction, an optional exponent. Its value is the integer made of the
  digits of the integer part and of the fraction, times the power of ten of the exponent
  less the number of digits of the fraction.
\<close>

definition parse_number :: "string \<Rightarrow> (double \<times> string) option" where
  "parse_number s =
     (let sign = (if startsWith ''-'' s then ''-'' else []);
          s1 = drop (length sign) s;
          int_part = (if startsWith ''0'' s1 then ''0'' else takeWhile is_digit s1);
          s2 = drop (length int_part) s1;
          frac_digits = (if startsWith ''.'' s2 then takeWhile is_digit (tl s2) else []);
          frac_part = (if startsWith ''.'' s2 then CHR ''.'' # frac_digits else []);
          s3 = drop (length frac_part) s2;
          has_exp = (startsWith ''e'' s3 \<or> startsWith ''E'' s3);
          exp_sign = (if has_exp \<and> (startsWith ''+'' (tl s3) \<or> startsWith ''-'' (tl s3))
                      then [hd (tl s3)] else []);
          exp_digits = (if has_exp then takeWhile is_digit (drop (1 + length exp_sign) s3) else []);
          exp_part = (if has_exp then hd s3 # exp_sign @ exp_digits else []);
          s4 = drop (length exp_part) s3;
          exponent = (if exp_sign = ''-'' then - int (digits_value exp_digits)
                      else int (digits_value exp_digits))
      in if int_part = [] \<or> (startsWith ''.'' s2 \<and> frac_digits = []) \<or> (has_exp \<and> exp_digits = [])
         then None
         else Some (decimal_to_double (sign = ''-'') (digits_value (int_part @ frac_digits))
                      (exponent - int (length frac_digits)), s4))"

subsection \<open>Objects\<close>

text \<open>
  A key is an array index when it is the decimal numeral, without a leading zero, of an
  integer below \<open>2 ^ 32 - 1\<close>.
\<close>

definition is_array_index :: "code_unit list \<Rightarrow> bool" where
  "is_array_index k =
     (k \<noteq> [] \<and> list_all (\<lambda>u. 48 \<le> u \<and> u \<le> 57) k \<and> (length k = 1 \<or> hd k \<noteq> 48)
      \<and> foldl (\<lambda>n u. 10 * n + (u - 48)) 0 k < 4294967295)"

definition index_value :: "code_unit list \<times> json \<Rightarrow> nat" where
  "index_value kv = foldl (\<lambda>n u. 10 * n + (u - 48)) 0 (fst kv)"

text \<open>Defining a property: a key already there keeps its place and takes the new value.\<close>

definition define_property ::
  "(code_unit list \<times> json) list \<Rightarrow> code_unit list \<times> json \<Rightarrow> (code_unit list \<times> json) list" where
  "define_property props kv =
     (if fst kv \<in> set (map fst props)
      then map (\<lambda>old. if fst old = fst kv then kv else old) props
      else props @ [kv])"

text \<open>The object of a list of members, in source order.\<close>

definition object_of :: "(code_unit list \<times> json) list \<Rightarrow> json" where
  "object_of members =
     (let props = foldl define_property [] members
      in JObject (sort_key index_value (filter (\<lambda>kv. is_array_index (fst kv)) props)
                  @ filter (\<lambda>kv. \<not> is_array_index (fst kv)) props))"

subsection \<open>Values\<close>

text \<open>
  Values, the elements of a non-empty array (after its bracket) and the members of a
  non-empty object (after its brace). The tests on lengths are what the termination proof
  reads; they hold in every call, each being between the rest of the input after a token
  and the input before it (lemmas \<open>parse_elements_unfold\<close> and \<open>parse_members_unfold\<close>
  below).
\<close>

lemma length_skip_ws: "length (skip_ws s) \<le> length s"
  by (simp add: skip_ws_def length_dropWhile_le)

function parse_value :: "string \<Rightarrow> (json \<times> string) option"
  and parse_elements :: "string \<Rightarrow> (json list \<times> string) option"
  and parse_members :: "string \<Rightarrow> ((code_unit list \<times> json) list \<times> string) option" where
  "parse_value [] = None"
| "parse_value (c # cs) =
     (if c = CHR 0x22 then
        (case parse_string cs of None \<Rightarrow> None | Some (s, rest) \<Rightarrow> Some (JString s, rest))
      else if c = CHR ''['' then
        (if startsWith '']'' (skip_ws cs) then Some (JArray [], tl (skip_ws cs))
         else (case parse_elements (skip_ws cs) of
                 None \<Rightarrow> None
               | Some (vs, rest) \<Rightarrow> Some (JArray vs, rest)))
      else if c = CHR ''{'' then
        (if startsWith ''}'' (skip_ws cs) then Some (JObject [], tl (skip_ws cs))
         else (case parse_members (skip_ws cs) of
                 None \<Rightarrow> None
               | Some (kvs, rest) \<Rightarrow> Some (object_of kvs, rest)))
      else if startsWith ''true'' (c # cs) then Some (JBool True, drop 4 (c # cs))
      else if startsWith ''false'' (c # cs) then Some (JBool False, drop 5 (c # cs))
      else if startsWith ''null'' (c # cs) then Some (JNull, drop 4 (c # cs))
      else (case parse_number (c # cs) of
              None \<Rightarrow> None
            | Some (n, rest) \<Rightarrow> Some (JNumber n, rest)))"
| "parse_elements s =
     (case parse_value s of
        None \<Rightarrow> None
      | Some (v, rest) \<Rightarrow>
          (case skip_ws rest of
             [] \<Rightarrow> None
           | d # ds \<Rightarrow>
               if d = CHR '']'' then Some ([v], ds)
               else if d = CHR '','' \<and> length ds < length s
               then cons_to v (parse_elements (skip_ws ds))
               else None))"
| "parse_members s =
     (if \<not> startsWith [CHR 0x22] s then None
      else
        (case parse_string (tl s) of
           None \<Rightarrow> None
         | Some (k, rest) \<Rightarrow>
             (case skip_ws rest of
                [] \<Rightarrow> None
              | colon # r1 \<Rightarrow>
                  if colon = CHR '':'' \<and> length r1 < length s then
                    (case parse_value (skip_ws r1) of
                       None \<Rightarrow> None
                     | Some (v, r2) \<Rightarrow>
                         (case skip_ws r2 of
                            [] \<Rightarrow> None
                          | d # ds \<Rightarrow>
                              if d = CHR ''}'' then Some ([(k, v)], ds)
                              else if d = CHR '','' \<and> length ds < length s
                              then cons_to (k, v) (parse_members (skip_ws ds))
                              else None))
                  else None)))"
  by pat_completeness auto
termination
proof (relation "measure (\<lambda>x. case x of
          Inl s \<Rightarrow> 2 * length s
        | Inr (Inl s) \<Rightarrow> 2 * length s + 1
        | Inr (Inr s) \<Rightarrow> 2 * length s + 1)", goal_cases)
  case 1
  then show ?case by simp
next
  case (2 c cs)
  then show ?case using length_skip_ws [of cs] by simp
next
  case (3 c cs)
  then show ?case using length_skip_ws [of cs] by simp
next
  case (4 s)
  then show ?case by simp
next
  case (5 s x2 x y d ds)
  then show ?case using length_skip_ws [of ds] by simp
next
  case (6 s x2 x y colon r1)
  then show ?case using length_skip_ws [of r1] by simp
next
  case (7 s x2 x y colon r1 x2a xa ya d ds)
  then show ?case using length_skip_ws [of ds] by simp
qed

text \<open>\<open>JSON.parse(text)\<close>: \<open>None\<close> stands for the \<open>SyntaxError\<close> it throws.\<close>

definition JSON_parse :: "string \<Rightarrow> json option" where
  "JSON_parse text =
     (case parse_value (skip_ws text) of
        None \<Rightarrow> None
      | Some (v, rest) \<Rightarrow> if skip_ws rest = [] then Some v else None)"

text \<open>
  The value of a JSON value in a condition: \<open>undefined\<close> (here \<open>None\<close>), \<open>null\<close>,
  \<open>false\<close>, the two zeros and the empty string are false.
\<close>

fun truthy :: "json option \<Rightarrow> bool" where
  "truthy None = False"
| "truthy (Some JNull) = False"
| "truthy (Some (JBool b)) = b"
| "truthy (Some (JNumber (Finite negative k p))) = (k \<noteq> 0)"
| "truthy (Some (JNumber (Infinite negative))) = True"
| "truthy (Some (JString s)) = (s \<noteq> [])"
| "truthy (Some (JArray vs)) = True"
| "truthy (Some (JObject props)) = True"

text \<open>
  \<open>parsed.k\<close> for a \<open>parsed\<close> other than \<open>null\<close>, and for the keys read here
  (\<open>content\<close>, \<open>done\<close>, \<open>message\<close>): the property of an object, \<open>undefined\<close> on every
  other value.
\<close>

definition property :: "string \<Rightarrow> json \<Rightarrow> json option" where
  "property k v = (case v of JObject props \<Rightarrow> map_of props (code_units k) | _ \<Rightarrow> None)"

section \<open>Streaming consumer (\<open>chatApi.streamMessage\<close>, lines 171 to 237 of its file)\<close>

text \<open>
  An exception value with its \<open>name\<close> and \<open>message\<close>, and the calls of the three callbacks:
  the observable behaviour of the consumer is the list of these calls, in order. The
  callbacks themselves are taken not to throw.
\<close>

datatype js_error = JsError (error_name: string) (error_message: string)

datatype callback = OnChunk json | OnDone json | OnError js_error

text \<open>
  The body of the loop over the lines (lines 209 to 228). Reading a property of \<open>null\<close>
  throws inside the \<open>try\<close>, so that payload takes the \<open>catch\<close> branch as a syntax error
  does. The raw payload handed to \<open>onChunk\<close> is a string value: its code units.
\<close>

definition process_line :: "string \<Rightarrow> callback list" where
  "process_line line =
     (if startsWith ''data: '' line then
        (let payload = drop 6 line in
         if payload = ''[DONE]'' then []
         else
           (case JSON_parse payload of
              None \<Rightarrow> [OnChunk (JString (code_units payload))]
            | Some parsed \<Rightarrow>
                if parsed = JNull then [OnChunk (JString (code_units payload))]
                else
                  (if truthy (property ''content'' parsed)
                   then [OnChunk (the (property ''content'' parsed))] else [])
                  @ (if truthy (property ''done'' parsed) \<and> truthy (property ''message'' parsed)
                     then [OnDone (the (property ''message'' parsed))] else [])))
      else [])"

text \<open>\<open>buffer.split('\n')\<close>: never empty.\<close>

fun split_lines :: "string \<Rightarrow> string list" where
  "split_lines [] = [[]]"
| "split_lines (c # cs) =
     (if c = CHR 0x0A then [] # split_lines cs
      else (case split_lines cs of
              [] \<Rightarrow> [[c]]
            | l # ls \<Rightarrow> (c # l) # ls))"

text \<open>
  What \<open>reader.read()\<close> gives before the end of the stream: a chunk, here already decoded
  by the \<open>TextDecoder\<close>, or a rejection. The end of the list is the read with \<open>done\<close> set.
  The decoded text is a list of characters, each standing for the code unit of its code:
  the texts whose code units are below 256.
\<close>

datatype read_result = Chunk string | ReadFailed js_error

text \<open>
  The loop of lines 201 to 229, from a buffer: the callbacks fired and the exception that
  left the loop, if any. \<open>lines.pop()\<close> takes the last line, complete or not, as the new
  buffer; at the end of the stream the buffer is dropped.
\<close>

fun read_loop :: "string \<Rightarrow> read_result list \<Rightarrow> callback list \<times> js_error option" where
  "read_loop buffer [] = ([], None)"
| "read_loop buffer (ReadFailed e # later) = ([], Some e)"
| "read_loop buffer (Chunk decoded # later) =
     (let buffer1 = buffer @ decoded;
          lines = split_lines buffer1;
          buffer2 = last lines;
          fired = concat (map process_line (butlast lines));
          (fired_later, thrown) = read_loop buffer2 later
      in (fired @ fired_later, thrown))"

text \<open>The outcome of \<open>fetch\<close>: a rejection, or a response with \<open>ok\<close>, \<open>status\<close> and \<open>body\<close>.\<close>

record stream_response =
  response_ok :: bool
  response_status :: nat
  response_body :: "read_result list option"

datatype fetch_result = FetchFailed js_error | FetchResponse stream_response

text \<open>The decimal digits of a number, for the template \<open>HTTP ${response.status}\<close>.\<close>

fun decimal :: "nat \<Rightarrow> string" where
  "decimal n = (if n < 10 then [char_of (48 + n)] else decimal (n div 10) @ [char_of (48 + n mod 10)])"

declare decimal.simps [simp del]

text \<open>The \<open>catch\<close> handler of lines 230 to 234.\<close>

definition catch_handler :: "js_error \<Rightarrow> callback list" where
  "catch_handler e = (if error_name e \<noteq> ''AbortError'' then [OnError e] else [])"

text \<open>
  \<open>streamMessage\<close> (lines 171 to 237), as a function of what the network does: the
  callbacks it fires, in order. The session and the message only shape the request sent.
\<close>

definition streamMessage :: "fetch_result \<Rightarrow> callback list" where
  "streamMessage fr =
     (case fr of
        FetchFailed e \<Rightarrow> catch_handler e
      | FetchResponse response \<Rightarrow>
          if \<not> response_ok response
          then catch_handler (JsError ''Error'' (''HTTP '' @ decimal (response_status response)))
          else
            (case response_body response of
               None \<Rightarrow> catch_handler (JsError ''Error'' ''No response body'')
             | Some reads \<Rightarrow>
                 (case read_loop [] reads of
                    (fired, None) \<Rightarrow> fired
                  | (fired, Some e) \<Rightarrow> fired @ catch_handler e)))"

text \<open>
  The function returned by \<open>streamMessage\<close> calls \<open>controller.abort()\<close>, and the request
  was opened with the controller's signal. By the Fetch standard the pending \<open>fetch\<close>, or
  the pending \<open>read\<close>, is then rejected with an exception named \<open>AbortError\<close>; after the
  end of the stream the call has no effect. \<open>cancel m msg fr\<close> is the network behaviour
  \<open>fr\<close> with the handle invoked at the moment \<open>m\<close>: before the response, or when \<open>k\<close>
  reads have completed.
\<close>

datatype moment = BeforeResponse | AfterReads nat

fun cancel :: "moment \<Rightarrow> string \<Rightarrow> fetch_result \<Rightarrow> fetch_result" where
  "cancel BeforeResponse msg fr = FetchFailed (JsError ''AbortError'' msg)"
| "cancel (AfterReads k) msg (FetchFailed e) = FetchFailed e"
| "cancel (AfterReads k) msg (FetchResponse r) =
     FetchResponse (r\<lparr>response_body :=
       (case response_body r of
          None \<Rightarrow> None
        | Some reads \<Rightarrow>
            Some (if k < length reads
                  then take k reads @ [ReadFailed (JsError ''AbortError'' msg)]
                  else reads))\<rparr>)"

text \<open>A stream that delivers the given chunks and ends.\<close>

definition delivered :: "string list \<Rightarrow> fetch_result" where
  "delivered chunks =
     FetchResponse \<lparr>response_ok = True, response_status = 200,
                    response_body = Some (map Chunk chunks)\<rparr>"

text \<open>The lines of a text that are closed by a newline.\<close>

definition complete_lines :: "string \<Rightarrow> string list" where
  "complete_lines s = butlast (split_lines s)"

text \<open>The callbacks of a finished loop: those fired, then the \<open>catch\<close> handler.\<close>

definition finish :: "callback list \<times> js_error option \<Rightarrow> callback list" where
  "finish r = (case r of (fired, None) \<Rightarrow> fired | (fired, Some e) \<Rightarrow> fired @ catch_handler e)"

section \<open>Properties of the HTTP client\<close>

lemmas client_defs = run_def unauthorized_def response_error_def refresh_fulfilled_def
  refresh_rejected_def onTokenRefreshed_def continuation_def apiClient_def
  subscribeTokenRefresh_def request_interceptor_def is_refresh_request_def initial_def
  getAccessToken_def getRefreshToken_def setTokens_def clearTokens_def ACCESS_TOKEN_KEY_def
  REFRESH_TOKEN_KEY_def truthy_string_def startsWith_def Bearer_def reissued_def Let_def

lemma reissue_with_new_token:
  "request_interceptor (setTokens a b ls) (r\<lparr>Authorization := Some (Bearer a)\<rparr>) = reissued a r"
  by (simp add: request_interceptor_def reissued_def setTokens_def getAccessToken_def
      truthy_string_def ACCESS_TOKEN_KEY_def REFRESH_TOKEN_KEY_def Let_def)

lemma foldl_continuation:
  "getAccessToken (localStorage st) = Some a \<Longrightarrow>
   foldl (continuation a) st qs = st\<lparr>dispatched := dispatched st @ map (reissued a) qs\<rparr>"
proof (induction qs arbitrary: st)
  case Nil
  then show ?case by simp
next
  case (Cons q qs)
  have "continuation a st q = st\<lparr>dispatched := dispatched st @ [reissued a q]\<rparr>"
    using Cons.prems
    by (simp add: continuation_def apiClient_def request_interceptor_def reissued_def
        truthy_string_def Let_def)
  moreover have "getAccessToken (localStorage (st\<lparr>dispatched := dispatched st @ [reissued a q]\<rparr>)) = Some a"
    using Cons.prems by simp
  ultimately show ?case
    using Cons.IH [of "st\<lparr>dispatched := dispatched st @ [reissued a q]\<rparr>"] by simp
qed

text \<open>While a refresh is in progress, every further 401 only joins the waiting list.\<close>

lemma enqueue_while_refreshing:
  assumes "isRefreshing st"
    and "truthy_string (getRefreshToken (localStorage st))"
    and "\<forall>r\<in>set qs. \<not> retry r \<and> \<not> is_refresh_request r"
  shows "run st (map unauthorized qs) = st\<lparr>refreshSubscribers := refreshSubscribers st @ qs\<rparr>"
  using assms
proof (induction qs arbitrary: st)
  case Nil
  then show ?case by (simp add: run_def)
next
  case (Cons q qs)
  let ?st = "st\<lparr>refreshSubscribers := refreshSubscribers st @ [q]\<rparr>"
  have one: "step st (unauthorized q) = ?st"
    using Cons.prems
    by (simp add: unauthorized_def response_error_def subscribeTokenRefresh_def Let_def)
  have "run ?st (map unauthorized qs) = ?st\<lparr>refreshSubscribers := refreshSubscribers ?st @ qs\<rparr>"
    using Cons.prems by (intro Cons.IH) simp_all
  then show ?case using one by (simp add: run_def)
qed

text \<open>
  The state after a burst of 401 responses that starts with no refresh in progress: the
  first request starts the refresh, the others wait.
\<close>

lemma concurrent_unauthorized:
  assumes "rs \<noteq> []"
    and "\<forall>r\<in>set rs. \<not> retry r \<and> \<not> is_refresh_request r"
    and "truthy_string (getRefreshToken (localStorage st))"
    and "\<not> isRefreshing st"
  shows "run st (map unauthorized rs) =
         st\<lparr>isRefreshing := True,
            awaiting := awaiting st @ [(hd rs)\<lparr>retry := True\<rparr>],
            refresh_calls := refresh_calls st @ [Bearer (the (getRefreshToken (localStorage st)))],
            refreshSubscribers := refreshSubscribers st @ tl rs\<rparr>"
proof -
  obtain r qs where rs: "rs = r # qs" using assms(1) by (cases rs) auto
  let ?st = "st\<lparr>isRefreshing := True,
            awaiting := awaiting st @ [r\<lparr>retry := True\<rparr>],
            refresh_calls := refresh_calls st @ [Bearer (the (getRefreshToken (localStorage st)))]\<rparr>"
  have one: "step st (unauthorized r) = ?st"
    using assms rs by (simp add: unauthorized_def response_error_def Let_def)
  have "run ?st (map unauthorized qs) = ?st\<lparr>refreshSubscribers := refreshSubscribers ?st @ qs\<rparr>"
    using assms rs by (intro enqueue_while_refreshing) simp_all
  then show ?thesis using one rs by (simp add: run_def)
qed

text \<open>The same burst followed by the success of the refresh call.\<close>

lemma refresh_cycle:
  assumes "rs \<noteq> []"
    and "\<forall>r\<in>set rs. \<not> retry r \<and> \<not> is_refresh_request r"
    and "truthy_string (getRefreshToken (localStorage st))"
    and "\<not> isRefreshing st"
    and "awaiting st = []"
    and "st1 = run st (map unauthorized rs)"
    and "st2 = step st1 (RefreshFulfilled a b)"
  shows "refresh_calls st1 = refresh_calls st @ [Bearer (the (getRefreshToken (localStorage st)))]
       \<and> refresh_calls st2 = refresh_calls st1
       \<and> dispatched st2 = dispatched st @ map (reissued a) (refreshSubscribers st @ tl rs)
                            @ [reissued a ((hd rs)\<lparr>retry := True\<rparr>)]
       \<and> (\<forall>r\<in>set rs. \<exists>q\<in>set (dispatched st2). url q = url r \<and> Authorization q = Some (Bearer a))
       \<and> rejections st2 = rejections st"
proof -
  have st1: "st1 = st\<lparr>isRefreshing := True,
            awaiting := [(hd rs)\<lparr>retry := True\<rparr>],
            refresh_calls := refresh_calls st @ [Bearer (the (getRefreshToken (localStorage st)))],
            refreshSubscribers := refreshSubscribers st @ tl rs\<rparr>"
    using concurrent_unauthorized [OF assms(1-4)] assms(5,6) by simp
  let ?mid = "st1\<lparr>awaiting := [], localStorage := setTokens a b (localStorage st1), isRefreshing := False\<rparr>"
  have tok: "getAccessToken (localStorage ?mid) = Some a"
    by (simp add: setTokens_def getAccessToken_def ACCESS_TOKEN_KEY_def REFRESH_TOKEN_KEY_def)
  have st2: "st2 = (?mid\<lparr>dispatched := dispatched st @ map (reissued a) (refreshSubscribers st @ tl rs)
                            @ [reissued a ((hd rs)\<lparr>retry := True\<rparr>)],
                    refreshSubscribers := []\<rparr>)"
    using assms(7) foldl_continuation [OF tok, of "refreshSubscribers st @ tl rs"]
    by (simp add: st1 refresh_fulfilled_def onTokenRefreshed_def apiClient_def
        reissue_with_new_token Let_def)
  have disp: "dispatched st2 = dispatched st @ map (reissued a) (refreshSubscribers st @ tl rs)
                            @ [reissued a ((hd rs)\<lparr>retry := True\<rparr>)]"
    by (simp add: st2)
  have each: "\<exists>q\<in>set (dispatched st2). url q = url r \<and> Authorization q = Some (Bearer a)"
    if "r \<in> set rs" for r
  proof (cases "r = hd rs")
    case True
    then show ?thesis by (auto simp: disp reissued_def)
  next
    case False
    then have "r \<in> set (tl rs)" using that assms(1) by (cases rs) auto
    then have "reissued a r \<in> set (dispatched st2)" by (simp add: disp)
    then show ?thesis by (auto simp: reissued_def intro!: bexI [of _ "reissued a r"])
  qed
  show ?thesis using each by (simp add: st1 st2)
qed

subsection \<open>The refresh gate\<close>

lemma foldl_continuation_gate:
  "awaiting (foldl (continuation a) st qs) = awaiting st \<and>
   isRefreshing (foldl (continuation a) st qs) = isRefreshing st"
  by (induction qs arbitrary: st) (simp_all add: continuation_def apiClient_def)

lemma gate_ok_step: "gate_ok st \<Longrightarrow> gate_ok (step st ev)"
proof (cases ev)
  case (ResponseError err)
  assume "gate_ok st"
  then show ?thesis using ResponseError
    by (auto simp: gate_ok_def response_error_def subscribeTokenRefresh_def Let_def)
next
  case (RefreshFulfilled a b)
  assume "gate_ok st"
  then show ?thesis using RefreshFulfilled
    by (cases "awaiting st")
       (auto simp: gate_ok_def refresh_fulfilled_def onTokenRefreshed_def apiClient_def
          foldl_continuation_gate Let_def)
next
  case RefreshRejected
  assume "gate_ok st"
  then show ?thesis using RefreshRejected
    by (cases "awaiting st") (auto simp: gate_ok_def refresh_rejected_def)
qed

text \<open>
  Whatever the events, never more than one refresh call is in flight.
\<close>

lemma at_most_one_refresh_in_flight:
  "length (awaiting (run (initial ls) evs)) \<le> 1"
proof -
  have "gate_ok (foldl step st evs)" if "gate_ok st" for st
    using that by (induction evs arbitrary: st) (simp_all add: gate_ok_step)
  moreover have "gate_ok (initial ls)" by (simp add: gate_ok_def initial_def)
  ultimately show ?thesis by (simp add: run_def gate_ok_def)
qed

subsection \<open>Claim C1\<close>

text \<open>
  C1, as stated: whenever N requests (N at least 1), none marked \<open>_retry\<close>, each receive a
  401 while a refresh token is stored, exactly one refresh call is issued. The code
  refutes this at two inputs. A 401 that arrives after the refresh started by an earlier
  401 has completed finds the gate open again and starts a second refresh call; and a 401
  for a request whose URL contains \<open>/auth/refresh\<close> clears the tokens and is rejected
  without any refresh call.
\<close>

theorem single_refresh_counterexample:
  "refresh_calls (run (initial ls0)
      [unauthorized (req ''/api/history''), RefreshFulfilled ''a1'' ''r1'',
       unauthorized (req ''/files/list'')]) = [Bearer ''r0'', Bearer ''r1'']
   \<and> refresh_calls (run (initial ls0) [unauthorized (req ''/auth/refresh'')]) = []"
  by (simp add: client_defs ls0_def req_def)

text \<open>
  C1, amended: let N requests (N at least 1), none marked \<open>_retry\<close> and none addressed to
  a URL containing \<open>/auth/refresh\<close>, each receive a 401 while a refresh token is stored, no
  refresh being in progress at the first and all N responses arriving before the refresh
  call settles. Then exactly one refresh call is issued, carrying the stored refresh token;
  and if that call succeeds, no further refresh call is made, no request is rejected, and
  every one of the N requests is re-issued with the new access token in its
  \<open>Authorization\<close> header: the waiting ones first, in arrival order, then the one that
  started the refresh.
\<close>

theorem concurrent_401_single_refresh:
  assumes "rs \<noteq> []"
    and "\<forall>r\<in>set rs. \<not> retry r \<and> \<not> is_refresh_request r"
    and "truthy_string (getRefreshToken (localStorage st))"
    and "\<not> isRefreshing st"
    and "awaiting st = []"
  shows "let st1 = run st (map unauthorized rs);
             st2 = step st1 (RefreshFulfilled a b)
         in refresh_calls st1 = refresh_calls st @ [Bearer (the (getRefreshToken (localStorage st)))]
          \<and> refresh_calls st2 = refresh_calls st1
          \<and> dispatched st2 = dispatched st @ map (reissued a) (refreshSubscribers st @ tl rs)
                               @ [reissued a ((hd rs)\<lparr>retry := True\<rparr>)]
          \<and> (\<forall>r\<in>set rs. \<exists>q\<in>set (dispatched st2).
                 url q = url r \<and> Authorization q = Some (Bearer a))
          \<and> rejections st2 = rejections st"
  unfolding Let_def by (rule refresh_cycle [OF assms refl refl])

theorem concurrent_401_single_refresh_witness:
  "[req ''/api/history'', req ''/files/list''] \<noteq> []
   \<and> \<not> retry (req ''/api/history'') \<and> \<not> is_refresh_request (req ''/api/history'')
   \<and> \<not> retry (req ''/files/list'') \<and> \<not> is_refresh_request (req ''/files/list'')
   \<and> truthy_string (getRefreshToken (localStorage (initial ls0)))
   \<and> \<not> isRefreshing (initial ls0)
   \<and> awaiting (initial ls0) = []
   \<and> refresh_calls (run (initial ls0)
        (map unauthorized [req ''/api/history'', req ''/files/list''])) = [Bearer ''r0'']
   \<and> dispatched (step (run (initial ls0)
        (map unauthorized [req ''/api/history'', req ''/files/list'']))
        (RefreshFulfilled ''a1'' ''r1''))
      = [reissued ''a1'' (req ''/files/list''),
         reissued ''a1'' ((req ''/api/history'')\<lparr>retry := True\<rparr>)]"
  using concurrent_401_single_refresh
    [of "[req ''/api/history'', req ''/files/list'']" "initial ls0" "''a1''" "''r1''"]
  by (simp add: client_defs ls0_def req_def)

subsection \<open>Claim C2\<close>

text \<open>
  C2, as stated: when the refresh call fails, every request that was enqueued while the
  refresh was in progress settles with a failure. In the code the failure path never
  touches the waiting list: of two requests that received a 401, the one that started the
  refresh is rejected, and the one that was enqueued is neither rejected nor re-issued; its
  continuation is still in the list.
\<close>

theorem refresh_failure_counterexample:
  "map fst (rejections (run (initial ls0)
      [unauthorized (req ''/api/history''), unauthorized (req ''/files/list''), RefreshRejected]))
     = [(req ''/api/history'')\<lparr>retry := True\<rparr>]
   \<and> refreshSubscribers (run (initial ls0)
      [unauthorized (req ''/api/history''), unauthorized (req ''/files/list''), RefreshRejected])
     = [req ''/files/list'']
   \<and> dispatched (run (initial ls0)
      [unauthorized (req ''/api/history''), unauthorized (req ''/files/list''), RefreshRejected])
     = []"
  by (simp add: client_defs ls0_def req_def)

text \<open>
  C2, amended: when the refresh call started by the first of N concurrent 401 responses
  fails, the client clears both stored tokens, resets \<open>isRefreshing\<close>, sets the location to
  \<open>/login\<close> and rejects the request that started the refresh with the refresh error. The
  other N - 1 requests are not settled by the failure: none is rejected, none is re-issued,
  and their continuations stay in the waiting list.
\<close>

theorem refresh_failure_leaves_queue:
  assumes "rs \<noteq> []"
    and "\<forall>r\<in>set rs. \<not> retry r \<and> \<not> is_refresh_request r"
    and "truthy_string (getRefreshToken (localStorage st))"
    and "\<not> isRefreshing st"
    and "awaiting st = []"
  shows "let st' = run st (map unauthorized rs @ [RefreshRejected]) in
       getAccessToken (localStorage st') = None
     \<and> getRefreshToken (localStorage st') = None
     \<and> href st' = Some ''/login''
     \<and> \<not> isRefreshing st'
     \<and> rejections st' = rejections st @ [((hd rs)\<lparr>retry := True\<rparr>, RefreshError)]
     \<and> refreshSubscribers st' = refreshSubscribers st @ tl rs
     \<and> dispatched st' = dispatched st"
proof -
  have "run st (map unauthorized rs @ [RefreshRejected])
        = step (run st (map unauthorized rs)) RefreshRejected"
    by (simp add: run_def)
  then show ?thesis
    using concurrent_unauthorized [OF assms(1-4)] assms(5)
    by (simp add: refresh_rejected_def clearTokens_def getAccessToken_def getRefreshToken_def Let_def)
qed

theorem refresh_failure_leaves_queue_witness:
  "[req ''/api/history'', req ''/files/list''] \<noteq> []
   \<and> \<not> retry (req ''/api/history'') \<and> \<not> is_refresh_request (req ''/api/history'')
   \<and> \<not> retry (req ''/files/list'') \<and> \<not> is_refresh_request (req ''/files/list'')
   \<and> truthy_string (getRefreshToken (localStorage (initial ls0)))
   \<and> \<not> isRefreshing (initial ls0)
   \<and> awaiting (initial ls0) = []
   \<and> rejections (run (initial ls0)
        (map unauthorized [req ''/api/history'', req ''/files/list''] @ [RefreshRejected]))
      = [((req ''/api/history'')\<lparr>retry := True\<rparr>, RefreshError)]
   \<and> getRefreshToken (localStorage (run (initial ls0)
        (map unauthorized [req ''/api/history'', req ''/files/list''] @ [RefreshRejected]))) = None"
  using refresh_failure_leaves_queue
    [of "[req ''/api/history'', req ''/files/list'']" "initial ls0"]
  by (simp add: client_defs ls0_def req_def)

subsection \<open>Claim C5\<close>

text \<open>
  C5 says that a request enqueued during a refresh is marked \<open>_retry\<close>, so that a second 401
  on its retry is propagated to the caller. The code sets \<open>_retry\<close> in line 104 only, after
  the enqueueing branch has returned in line 94: the request re-issued from the waiting
  list is unmarked. Evaluated on two requests, the second enqueued behind the first: both
  are re-issued with the new token; a second 401 on the retry of the enqueued one is not
  rejected but starts a second refresh call; and if another refresh is in progress at that
  moment, the same request is enqueued a second time.
\<close>

theorem enqueued_request_not_marked_retry:
  "dispatched (run (initial ls0)
      [unauthorized (req ''/api/history''), unauthorized (req ''/files/list''),
       RefreshFulfilled ''a1'' ''r1''])
     = [reissued ''a1'' (req ''/files/list''),
        reissued ''a1'' ((req ''/api/history'')\<lparr>retry := True\<rparr>)]
   \<and> retry (reissued ''a1'' (req ''/files/list'')) = False
   \<and> rejections (run (initial ls0)
      [unauthorized (req ''/api/history''), unauthorized (req ''/files/list''),
       RefreshFulfilled ''a1'' ''r1'', unauthorized (reissued ''a1'' (req ''/files/list''))]) = []
   \<and> refresh_calls (run (initial ls0)
      [unauthorized (req ''/api/history''), unauthorized (req ''/files/list''),
       RefreshFulfilled ''a1'' ''r1'', unauthorized (reissued ''a1'' (req ''/files/list''))])
     = [Bearer ''r0'', Bearer ''r1'']
   \<and> refreshSubscribers (run (initial ls0)
      [unauthorized (req ''/api/history''), unauthorized (req ''/files/list''),
       RefreshFulfilled ''a1'' ''r1'', unauthorized (req ''/auth/me''),
       unauthorized (reissued ''a1'' (req ''/files/list''))])
     = [reissued ''a1'' (req ''/files/list'')]"
  by (simp add: client_defs ls0_def req_def)

section \<open>Properties of the chat store\<close>

lemmas chat_defs = sendMessage_def sendMessage_start_def sendMessage_resume_def userMessage_def
  store0_def session0_def say_def clock0_def refused_def

text \<open>
  With a current session and nothing else touching the store during the call: when the
  request is fulfilled with \<open>success\<close> set, the list grows by the user message and the
  reply; when the request is rejected, the list is the one before the call and \<open>error\<close>
  is set.
\<close>

lemma sendMessage_success:
  assumes "currentSession st \<noteq> None" and "success response"
  shows "sendMessage d c (Fulfilled response) st =
         (True, st\<lparr>sending := False, error := None, streamingContent := [],
                   messages := messages st @ [userMessage d c, data response]\<rparr>)"
  using assms by (simp add: sendMessage_def sendMessage_start_def sendMessage_resume_def)

lemma sendMessage_rejected:
  assumes "currentSession st \<noteq> None"
  shows "sendMessage d c (Rejected err) st =
         (False, st\<lparr>sending := False, streamingContent := [],
                    error := Some (if truthy_string err then the err else ''Failed to send message'')\<rparr>)"
  using assms by (auto simp: sendMessage_def sendMessage_start_def sendMessage_resume_def)

text \<open>
  When the request is fulfilled with \<open>success\<close> unset, the call returns \<open>false\<close> and
  only resets \<open>sending\<close>: the user message stays and \<open>error\<close> stays empty.
\<close>

lemma sendMessage_refused:
  assumes "currentSession st \<noteq> None" and "\<not> success response"
  shows "sendMessage d c (Fulfilled response) st =
         (False, st\<lparr>sending := False, error := None, streamingContent := [],
                    messages := messages st @ [userMessage d c]\<rparr>)"
  using assms by (auto simp: sendMessage_def sendMessage_start_def sendMessage_resume_def)

subsection \<open>Claim C3\<close>

text \<open>
  C3 says that a failed \<open>sendMessage\<close> leaves the message list as it was before the call,
  sets \<open>error\<close>, and leaves no provisional message behind. The code does so when the
  request is rejected (the \<open>catch\<close> block removes the message), but not on its other
  failure path: when the server answers with \<open>success: false\<close>, line 153 returns \<open>false\<close>
  with the provisional message still in the list and \<open>error\<close> still \<open>null\<close>.
\<close>

theorem sendMessage_refused_keeps_provisional:
  "sendMessage (say ''hi'') clock0 (Fulfilled refused) store0
     = (False, store0\<lparr>messages := [userMessage (say ''hi'') clock0]\<rparr>)
   \<and> error (snd (sendMessage (say ''hi'') clock0 (Fulfilled refused) store0)) = None
   \<and> length (messages (snd (sendMessage (say ''hi'') clock0 (Fulfilled refused) store0)))
       = length (messages store0) + 1"
  by (simp add: chat_defs)

subsection \<open>Claim C4\<close>

text \<open>
  \<open>sendMessage\<close> itself never reads \<open>sending\<close>: called for a session while \<open>sending\<close> is
  true, it appends its provisional message at once. The view guards its call: a
  \<open>handleSend\<close> that starts while \<open>sending\<close> is true returns without calling it.
\<close>

lemma sendMessage_start_unguarded:
  assumes "currentSession st \<noteq> None"
  shows "sendMessage_start d c st
           = Some (st\<lparr>sending := True, error := None, streamingContent := [],
                     messages := messages st @ [userMessage d c]\<rparr>)"
  using assms by (simp add: sendMessage_start_def)

lemma handleSend_gate:
  "sending st \<Longrightarrow> handleSend_start c (v, st) = (Returned, v, st)"
  by (simp add: handleSend_start_def)

text \<open>
  C4 says that while one \<open>sendMessage\<close> call is in flight no other can change the message
  list. The view tests \<open>sending\<close> at the entry of \<open>handleSend\<close> only, and not again after
  \<open>await createSession\<close>. Evaluated on a store without a current session, with the
  message \<open>again\<close> typed: a first submit is suspended in \<open>createSession\<close>; a second
  submit, made before the answer, passes the test (\<open>sending\<close> is still false) and is
  suspended there too. The first \<open>createSession\<close> succeeds and the first \<open>handleSend\<close>
  goes on to \<open>sendMessage\<close>: \<open>sending\<close> is true and the list holds its message. The
  second \<open>createSession\<close> is rejected, and the second \<open>handleSend\<close> goes on to
  \<open>sendMessage\<close> all the same: with the first call still in flight, the list of the same
  session gets a second provisional message.
\<close>

theorem second_submit_sends_while_sending:
  "(let (h1, v1, s1) = handleSend_start clock0 (view0, store_new);
        (h2, v2, s2) = handleSend_start clock0 (v1, s1);
        s3 = snd (createSession_resume (Fulfilled created) s2);
        (h4, v4, s4) = handleSend_send ''again'' clock0 (v2, s3);
        s5 = snd (createSession_resume (Rejected None) s4);
        (h6, v6, s6) = handleSend_send ''again'' clock1 (v4, s5)
    in h1 = InCreateSession ''again'' ''again''
     \<and> h2 = InCreateSession ''again'' ''again''
     \<and> sending s2 = False
     \<and> h4 = InSendMessage (send_payload ''again'' view0)
     \<and> sending s4 = True
     \<and> map content (messages s4) = [''again'']
     \<and> sending s5 = True
     \<and> currentSession s5 = Some session0
     \<and> h6 = InSendMessage (send_payload ''again'' view0)
     \<and> map content (messages s6) = [''again'', ''again'']
     \<and> map message_id (messages s6) = [now clock0, now clock1])"
  by (simp add: chat_defs handleSend_start_def handleSend_send_def createSession_start_def
      createSession_resume_def send_payload_def trim_def is_white_space_def view0_def
      store_new_def created_def clock1_def truthy_string_def Let_def)

section \<open>Properties of logout\<close>

subsection \<open>Claim C10\<close>

text \<open>
  C10: every logout call clears both tokens, whatever the outcome of the POST to
  \<open>/auth/logout\<close> (fulfilled or rejected) and whatever \<open>localStorage\<close> holds when it
  settles. \<open>authApi.logout\<close> settles as the POST did, with neither token stored. The
  \<open>finally\<close> block of the store's \<open>logout\<close> resets the user and clears both tokens on
  its own, whatever \<open>authApi.logout\<close> has left. And so, once the store's \<open>logout\<close> has
  settled (fulfilled when the POST was, rejected with its exception when the POST was),
  the user is \<open>null\<close> and neither an access token nor a refresh token is stored.
\<close>

theorem logout_clears_tokens:
  "fst (authApi_logout post ls) = post
   \<and> getAccessToken (snd (authApi_logout post ls)) = None
   \<and> getRefreshToken (snd (authApi_logout post ls)) = None
   \<and> user (fst (snd (logout_finally r (store, ls)))) = None
   \<and> getAccessToken (snd (snd (logout_finally r (store, ls)))) = None
   \<and> getRefreshToken (snd (snd (logout_finally r (store, ls)))) = None
   \<and> fst (logout post (store, ls))
       = (case post of Fulfilled response_data \<Rightarrow> Fulfilled () | Rejected e \<Rightarrow> Rejected e)
   \<and> user (fst (snd (logout post (store, ls)))) = None
   \<and> getAccessToken (snd (snd (logout post (store, ls)))) = None
   \<and> getRefreshToken (snd (snd (logout post (store, ls)))) = None"
  by (cases post)
     (simp_all add: logout_def logout_finally_def authApi_logout_def clearTokens_def
        getAccessToken_def getRefreshToken_def)

section \<open>Properties of the JSON parser\<close>

text \<open>
  Every successful parse consumes at least one character. Hence the tests on lengths in
  \<open>parse_elements\<close> and \<open>parse_members\<close> never fail, and the two functions satisfy
  their equations without them.
\<close>

lemma cons_to_Some: "cons_to x r = Some (ys, rest) \<Longrightarrow> \<exists>xs. r = Some (xs, rest)"
  by (auto simp: cons_to_def split: option.splits)

lemma parse_string_consumes:
  "parse_string s = Some (x, rest) \<Longrightarrow> length rest < length s"
proof (induction "length s" arbitrary: s x rule: less_induct)
  case less
  show ?case
  proof (cases s)
    case Nil
    then show ?thesis using less.prems by simp
  next
    case (Cons c cs)
    show ?thesis
    proof (cases "c = CHR 0x22")
      case True
      then show ?thesis using less.prems Cons by simp
    next
      case quote: False
      show ?thesis
      proof (cases "c = CHR 0x5C")
        case False
        then obtain xs where "parse_string cs = Some (xs, rest)"
          using less.prems Cons quote
          by (auto split: if_splits dest!: cons_to_Some)
        then have "length rest < length cs"
          using less.hyps [of cs xs] Cons by simp
        then show ?thesis using Cons by simp
      next
        case True
        show ?thesis
        proof (cases cs)
          case Nil
          then show ?thesis using less.prems Cons True by simp
        next
          case inner: (Cons e cs')
          show ?thesis
          proof (cases "e = CHR ''u''")
            case True
            then obtain xs where "parse_string (drop 4 cs') = Some (xs, rest)"
              using less.prems Cons \<open>c = CHR 0x5C\<close> inner
              by (auto split: option.splits dest!: cons_to_Some)
            then have "length rest < length (drop 4 cs')"
              using less.hyps [of "drop 4 cs'" xs] Cons inner by simp
            then show ?thesis using Cons inner by simp
          next
            case False
            then obtain xs where "parse_string cs' = Some (xs, rest)"
              using less.prems Cons \<open>c = CHR 0x5C\<close> inner
              by (auto split: option.splits dest!: cons_to_Some)
            then have "length rest < length cs'"
              using less.hyps [of cs' xs] Cons inner by simp
            then show ?thesis using Cons inner by simp
          qed
        qed
      qed
    qed
  qed
qed


lemma parse_number_consumes:
  assumes "parse_number s = Some (n, rest)"
  shows "length rest < length s"
proof -
  define sign where "sign = (if startsWith ''-'' s then ''-'' else [])"
  define s1 where "s1 = drop (length sign) s"
  define int_part where "int_part = (if startsWith ''0'' s1 then ''0'' else takeWhile is_digit s1)"
  define s2 where "s2 = drop (length int_part) s1"
  define frac_digits where "frac_digits = (if startsWith ''.'' s2 then takeWhile is_digit (tl s2) else [])"
  define frac_part where "frac_part = (if startsWith ''.'' s2 then CHR ''.'' # frac_digits else [])"
  define s3 where "s3 = drop (length frac_part) s2"
  define has_exp where "has_exp = (startsWith ''e'' s3 \<or> startsWith ''E'' s3)"
  define exp_sign where "exp_sign = (if has_exp \<and> (startsWith ''+'' (tl s3) \<or> startsWith ''-'' (tl s3))
                      then [hd (tl s3)] else [])"
  define exp_digits where "exp_digits = (if has_exp then takeWhile is_digit (drop (1 + length exp_sign) s3) else [])"
  define exp_part where "exp_part = (if has_exp then hd s3 # exp_sign @ exp_digits else [])"
  define s4 where "s4 = drop (length exp_part) s3"
  define exponent where "exponent = (if exp_sign = ''-'' then - int (digits_value exp_digits)
                      else int (digits_value exp_digits))"
  have eq: "parse_number s =
      (if int_part = [] \<or> (startsWith ''.'' s2 \<and> frac_digits = []) \<or> (has_exp \<and> exp_digits = [])
       then None
       else Some (decimal_to_double (sign = ''-'') (digits_value (int_part @ frac_digits))
                    (exponent - int (length frac_digits)), s4))"
    unfolding parse_number_def Let_def sign_def s1_def int_part_def s2_def frac_digits_def
      frac_part_def s3_def has_exp_def exp_sign_def exp_digits_def exp_part_def s4_def
      exponent_def
    by (rule refl)
  have ne: "int_part \<noteq> []" and rest: "rest = s4"
    using assms unfolding eq by (simp_all split: if_splits)
  have le: "length int_part \<le> length s1"
  proof (cases "startsWith ''0'' s1")
    case True
    then show ?thesis by (cases s1) (simp_all add: int_part_def startsWith_def)
  next
    case False
    then show ?thesis by (simp add: int_part_def length_takeWhile_le)
  qed
  have "length rest \<le> length s1 - length int_part"
    by (simp add: rest s4_def s3_def s2_def)
  moreover have "length s1 \<le> length s" by (simp add: s1_def)
  moreover have "0 < length int_part" using ne by simp
  ultimately show ?thesis using le by linarith
qed


lemma parse_elements_Some:
  assumes "parse_elements s = Some (vs, rest)"
  shows "\<exists>v r d ds. parse_value s = Some (v, r) \<and> skip_ws r = d # ds \<and>
           (rest = ds \<or> length ds < length s \<and> (\<exists>xs. parse_elements (skip_ws ds) = Some (xs, rest)))"
proof -
  from assms have "(case parse_value s of
        None \<Rightarrow> None
      | Some (v, rest) \<Rightarrow>
          (case skip_ws rest of
             [] \<Rightarrow> None
           | d # ds \<Rightarrow>
               if d = CHR '']'' then Some ([v], ds)
               else if d = CHR '','' \<and> length ds < length s
               then cons_to v (parse_elements (skip_ws ds))
               else None)) = Some (vs, rest)"
    by (subst (asm) parse_elements.simps)
  then show ?thesis
    by (auto simp: cons_to_def simp del: parse_value.simps parse_elements.simps parse_members.simps
        split: option.splits list.splits if_splits)
qed

lemma parse_members_Some:
  assumes "parse_members s = Some (kvs, rest)"
  shows "\<exists>k r0 r1 v r2 d ds. parse_string (tl s) = Some (k, r0) \<and> s \<noteq> [] \<and>
           skip_ws r0 = CHR '':'' # r1 \<and> length r1 < length s \<and>
           parse_value (skip_ws r1) = Some (v, r2) \<and> skip_ws r2 = d # ds \<and>
           (rest = ds \<or> length ds < length s \<and> (\<exists>xs. parse_members (skip_ws ds) = Some (xs, rest)))"
proof -
  from assms have "(if \<not> startsWith [CHR 0x22] s then None
      else
        (case parse_string (tl s) of
           None \<Rightarrow> None
         | Some (k, rest) \<Rightarrow>
             (case skip_ws rest of
                [] \<Rightarrow> None
              | colon # r1 \<Rightarrow>
                  if colon = CHR '':'' \<and> length r1 < length s then
                    (case parse_value (skip_ws r1) of
                       None \<Rightarrow> None
                     | Some (v, r2) \<Rightarrow>
                         (case skip_ws r2 of
                            [] \<Rightarrow> None
                          | d # ds \<Rightarrow>
                              if d = CHR ''}'' then Some ([(k, v)], ds)
                              else if d = CHR '','' \<and> length ds < length s
                              then cons_to (k, v) (parse_members (skip_ws ds))
                              else None))
                  else None))) = Some (kvs, rest)"
    by (subst (asm) parse_members.simps)
  then show ?thesis
    by (auto simp: cons_to_def startsWith_def
        simp del: parse_value.simps parse_elements.simps parse_members.simps
        split: option.splits list.splits if_splits)
qed

lemma length_tl_skip_ws: "length (tl (skip_ws cs)) \<le> length cs"
  using length_skip_ws [of cs] by (cases "skip_ws cs") auto

lemma parse_value_Some:
  assumes "parse_value s = Some (v, rest)"
  shows "s \<noteq> [] \<and>
         ((\<exists>x. parse_string (tl s) = Some (x, rest))
          \<or> rest = tl (skip_ws (tl s))
          \<or> (\<exists>vs. parse_elements (skip_ws (tl s)) = Some (vs, rest))
          \<or> (\<exists>kvs. parse_members (skip_ws (tl s)) = Some (kvs, rest))
          \<or> rest = drop 4 s \<or> rest = drop 5 s
          \<or> (\<exists>n. parse_number s = Some (n, rest)))"
proof (cases s)
  case Nil
  then show ?thesis using assms by simp
next
  case (Cons c cs)
  from assms have "(if c = CHR 0x22 then
        (case parse_string cs of None \<Rightarrow> None | Some (s, rest) \<Rightarrow> Some (JString s, rest))
      else if c = CHR ''['' then
        (if startsWith '']'' (skip_ws cs) then Some (JArray [], tl (skip_ws cs))
         else (case parse_elements (skip_ws cs) of
                 None \<Rightarrow> None
               | Some (vs, rest) \<Rightarrow> Some (JArray vs, rest)))
      else if c = CHR ''{'' then
        (if startsWith ''}'' (skip_ws cs) then Some (JObject [], tl (skip_ws cs))
         else (case parse_members (skip_ws cs) of
                 None \<Rightarrow> None
               | Some (kvs, rest) \<Rightarrow> Some (object_of kvs, rest)))
      else if startsWith ''true'' (c # cs) then Some (JBool True, drop 4 (c # cs))
      else if startsWith ''false'' (c # cs) then Some (JBool False, drop 5 (c # cs))
      else if startsWith ''null'' (c # cs) then Some (JNull, drop 4 (c # cs))
      else (case parse_number (c # cs) of
              None \<Rightarrow> None
            | Some (n, rest) \<Rightarrow> Some (JNumber n, rest))) = Some (v, rest)"
    unfolding Cons by (subst (asm) parse_value.simps)
  then show ?thesis
    unfolding Cons
    by (auto simp del: parse_value.simps parse_elements.simps parse_members.simps
        split: option.splits if_splits)
qed


lemma parse_consumes_aux:
  "(\<forall>v rest. 2 * length s < n \<longrightarrow> parse_value s = Some (v, rest) \<longrightarrow> length rest < length s)
   \<and> (\<forall>vs rest. 2 * length s + 1 < n \<longrightarrow> parse_elements s = Some (vs, rest)
          \<longrightarrow> length rest < length s)
   \<and> (\<forall>kvs rest. 2 * length s + 1 < n \<longrightarrow> parse_members s = Some (kvs, rest)
          \<longrightarrow> length rest < length s)"
proof (induction n arbitrary: s)
  case 0
  then show ?case by simp
next
  case (Suc n)
  have value_IH: "length rest < length t"
    if "2 * length t < n" "parse_value t = Some (v, rest)" for t v rest
    using Suc [of t] that by blast
  have elements_IH: "length rest < length t"
    if "2 * length t + 1 < n" "parse_elements t = Some (vs, rest)" for t vs rest
    using Suc [of t] that by blast
  have members_IH: "length rest < length t"
    if "2 * length t + 1 < n" "parse_members t = Some (kvs, rest)" for t kvs rest
    using Suc [of t] that by blast
  have "length rest < length s"
    if bound: "2 * length s < Suc n" and parsed: "parse_value s = Some (v, rest)" for v rest
  proof -
    from parse_value_Some [OF parsed] have ne: "s \<noteq> []" and
      alt: "(\<exists>x. parse_string (tl s) = Some (x, rest))
          \<or> rest = tl (skip_ws (tl s))
          \<or> (\<exists>vs. parse_elements (skip_ws (tl s)) = Some (vs, rest))
          \<or> (\<exists>kvs. parse_members (skip_ws (tl s)) = Some (kvs, rest))
          \<or> rest = drop 4 s \<or> rest = drop 5 s
          \<or> (\<exists>n. parse_number s = Some (n, rest))"
      by blast+
    have tl_len: "length (tl s) < length s" using ne by (cases s) auto
    have inner: "2 * length (skip_ws (tl s)) + 1 < n"
      using bound tl_len length_skip_ws [of "tl s"] by linarith
    from alt show ?thesis
    proof (elim disjE exE)
      fix x assume "parse_string (tl s) = Some (x, rest)"
      then show ?thesis using parse_string_consumes [of "tl s" x rest] tl_len by linarith
    next
      assume "rest = tl (skip_ws (tl s))"
      then show ?thesis using length_tl_skip_ws [of "tl s"] tl_len by simp
    next
      fix vs assume "parse_elements (skip_ws (tl s)) = Some (vs, rest)"
      then show ?thesis
        using elements_IH [OF inner] length_skip_ws [of "tl s"] tl_len by fastforce
    next
      fix kvs assume "parse_members (skip_ws (tl s)) = Some (kvs, rest)"
      then show ?thesis
        using members_IH [OF inner] length_skip_ws [of "tl s"] tl_len by fastforce
    next
      assume "rest = drop 4 s"
      then show ?thesis using ne by simp
    next
      assume "rest = drop 5 s"
      then show ?thesis using ne by simp
    next
      fix m assume "parse_number s = Some (m, rest)"
      then show ?thesis by (rule parse_number_consumes)
    qed
  qed
  moreover have "length rest < length s"
    if bound: "2 * length s + 1 < Suc n" and parsed: "parse_elements s = Some (vs, rest)"
    for vs rest
  proof -
    from parse_elements_Some [OF parsed] obtain v r d ds where
      v: "parse_value s = Some (v, r)" and r: "skip_ws r = d # ds" and
      alt: "rest = ds \<or> length ds < length s \<and>
              (\<exists>xs. parse_elements (skip_ws ds) = Some (xs, rest))"
      by blast
    have "length r < length s" using value_IH [OF _ v] bound by simp
    then have ds: "length ds < length s"
      using length_skip_ws [of r] r by simp
    from alt show ?thesis
    proof
      assume "rest = ds"
      then show ?thesis using ds by simp
    next
      assume "length ds < length s \<and> (\<exists>xs. parse_elements (skip_ws ds) = Some (xs, rest))"
      then obtain xs where xs: "parse_elements (skip_ws ds) = Some (xs, rest)" by blast
      have "2 * length (skip_ws ds) + 1 < n"
        using bound ds length_skip_ws [of ds] by linarith
      then show ?thesis
        using elements_IH [OF _ xs] ds length_skip_ws [of ds] by linarith
    qed
  qed
  moreover have "length rest < length s"
    if bound: "2 * length s + 1 < Suc n" and parsed: "parse_members s = Some (kvs, rest)"
    for kvs rest
  proof -
    from parse_members_Some [OF parsed] obtain k r0 r1 v r2 d ds where
      r1: "length r1 < length s" and
      v: "parse_value (skip_ws r1) = Some (v, r2)" and r2: "skip_ws r2 = d # ds" and
      alt: "rest = ds \<or> length ds < length s \<and>
              (\<exists>xs. parse_members (skip_ws ds) = Some (xs, rest))"
      by blast
    have "2 * length (skip_ws r1) < n"
      using bound r1 length_skip_ws [of r1] by linarith
    then have "length r2 < length (skip_ws r1)" using value_IH [OF _ v] by simp
    then have ds: "length ds < length s"
      using length_skip_ws [of r2] length_skip_ws [of r1] r1 r2 by simp
    from alt show ?thesis
    proof
      assume "rest = ds"
      then show ?thesis using ds by simp
    next
      assume "length ds < length s \<and> (\<exists>xs. parse_members (skip_ws ds) = Some (xs, rest))"
      then obtain xs where xs: "parse_members (skip_ws ds) = Some (xs, rest)" by blast
      have "2 * length (skip_ws ds) + 1 < n"
        using bound ds length_skip_ws [of ds] by linarith
      then show ?thesis
        using members_IH [OF _ xs] ds length_skip_ws [of ds] by linarith
    qed
  qed
  ultimately show ?case by blast
qed

lemma parse_value_consumes:
  "parse_value s = Some (v, rest) \<Longrightarrow> length rest < length s"
  using parse_consumes_aux [of s "Suc (2 * length s)"] by simp

text \<open>The equations of the parser without the tests on lengths.\<close>

lemma parse_elements_unfold:
  "parse_elements s =
     (case parse_value s of
        None \<Rightarrow> None
      | Some (v, rest) \<Rightarrow>
          (case skip_ws rest of
             [] \<Rightarrow> None
           | d # ds \<Rightarrow>
               if d = CHR '']'' then Some ([v], ds)
               else if d = CHR '','' then cons_to v (parse_elements (skip_ws ds))
               else None))"
proof (cases "parse_value s")
  case None
  then show ?thesis by (subst parse_elements.simps) simp
next
  case (Some p)
  obtain v rest where p: "p = (v, rest)" by (cases p)
  have "length rest < length s" using Some p parse_value_consumes by simp
  then have "length ds < length s" if "skip_ws rest = d # ds" for d ds
    using that length_skip_ws [of rest] by simp
  then show ?thesis
    by (subst parse_elements.simps)
       (simp add: Some p del: parse_value.simps parse_elements.simps parse_members.simps
          split: list.splits)
qed

lemma parse_members_unfold:
  "parse_members s =
     (if \<not> startsWith [CHR 0x22] s then None
      else
        (case parse_string (tl s) of
           None \<Rightarrow> None
         | Some (k, rest) \<Rightarrow>
             (case skip_ws rest of
                [] \<Rightarrow> None
              | colon # r1 \<Rightarrow>
                  if colon = CHR '':'' then
                    (case parse_value (skip_ws r1) of
                       None \<Rightarrow> None
                     | Some (v, r2) \<Rightarrow>
                         (case skip_ws r2 of
                            [] \<Rightarrow> None
                          | d # ds \<Rightarrow>
                              if d = CHR ''}'' then Some ([(k, v)], ds)
                              else if d = CHR '','' then cons_to (k, v) (parse_members (skip_ws ds))
                              else None))
                  else None)))"
proof -
  have first: "length r1 < length s"
    if "startsWith [CHR 0x22] s" "parse_string (tl s) = Some (k, rest)" "skip_ws rest = colon # r1"
    for k rest colon r1
  proof -
    have "s \<noteq> []" using that(1) by (auto simp: startsWith_def)
    then have "length (tl s) < length s" by (cases s) auto
    moreover have "length rest < length (tl s)" using that(2) by (rule parse_string_consumes)
    ultimately show ?thesis using length_skip_ws [of rest] that(3) by simp
  qed
  have second: "length ds < length s"
    if "length r1 < length s" "parse_value (skip_ws r1) = Some (v, r2)" "skip_ws r2 = d # ds"
    for r1 v r2 d ds
    using parse_value_consumes [OF that(2)] length_skip_ws [of r1] length_skip_ws [of r2] that(1,3)
    by simp
  show ?thesis
    by (subst parse_members.simps)
       (auto simp del: parse_value.simps parse_elements.simps parse_members.simps
          split: option.splits list.splits dest: first second)
qed

section \<open>Properties of the streaming consumer\<close>

lemmas stream_defs = streamMessage_def delivered_def process_line_def catch_handler_def
  JSON_parse_def skip_ws_def is_ws_def startsWith_def cons_to_def property_def code_units_def
  object_of_def define_property_def is_array_index_def Let_def





subsection \<open>Lines and buffering\<close>

lemma split_lines_nonempty: "split_lines s \<noteq> []"
  by (induction s) (auto split: list.splits)

lemma split_lines_Cons:
  "split_lines (c # cs) =
     (if c = CHR 0x0A then [] # split_lines cs
      else (c # hd (split_lines cs)) # tl (split_lines cs))"
  using split_lines_nonempty [of cs] by (cases "split_lines cs") auto

lemma split_lines_append:
  "split_lines (s @ r) = butlast (split_lines s) @ split_lines (last (split_lines s) @ r)"
proof (induction s)
  case Nil
  then show ?case by simp
next
  case (Cons c s)
  obtain l ls where S: "split_lines s = l # ls"
    using split_lines_nonempty [of s] by (cases "split_lines s") auto
  show ?case
  proof (cases "c = CHR 0x0A")
    case True
    then show ?thesis using Cons S by simp
  next
    case False
    show ?thesis
    proof (cases ls)
      case Nil
      then show ?thesis
        using Cons S False split_lines_nonempty [of "l @ r"]
        by (auto split: list.splits)
    next
      case (Cons l2 ls2)
      then show ?thesis
        using Cons.IH S False by (auto split: list.splits)
    qed
  qed
qed

lemma last_split_lines_no_newline: "CHR 0x0A \<notin> set (last (split_lines s))"
  by (induction s) (auto split: list.splits simp: split_lines_nonempty)

lemma split_lines_no_newline: "CHR 0x0A \<notin> set s \<Longrightarrow> split_lines s = [s]"
  by (induction s) auto

lemma complete_lines_append:
  "complete_lines (s @ r) = complete_lines s @ complete_lines (last (split_lines s) @ r)"
  unfolding complete_lines_def
  by (subst split_lines_append) (simp add: butlast_append split_lines_nonempty)

lemma read_loop_chunks:
  "CHR 0x0A \<notin> set b \<Longrightarrow>
   read_loop b (map Chunk chunks) =
     (concat (map process_line (complete_lines (b @ concat chunks))), None)"
proof (induction chunks arbitrary: b)
  case Nil
  then show ?case by (simp add: complete_lines_def split_lines_no_newline)
next
  case (Cons v rest)
  have "read_loop (last (split_lines (b @ v))) (map Chunk rest) =
        (concat (map process_line (complete_lines (last (split_lines (b @ v)) @ concat rest))), None)"
    by (rule Cons.IH) (rule last_split_lines_no_newline)
  moreover have "complete_lines (b @ concat (v # rest)) =
        complete_lines (b @ v) @ complete_lines (last (split_lines (b @ v)) @ concat rest)"
    using complete_lines_append [of "b @ v" "concat rest"] by simp
  ultimately show ?case by (simp add: complete_lines_def Let_def)
qed



subsection \<open>Errors and cancellation\<close>

lemma process_line_no_error: "OnError e \<notin> set (process_line line)"
  by (auto simp: process_line_def Let_def split: option.splits)

lemma read_loop_Chunk:
  "read_loop b (Chunk v # later) =
     (concat (map process_line (complete_lines (b @ v)))
        @ fst (read_loop (last (split_lines (b @ v))) later),
      snd (read_loop (last (split_lines (b @ v))) later))"
  by (simp add: Let_def complete_lines_def split: prod.splits)

declare read_loop.simps(3) [simp del]

lemma read_loop_no_error: "OnError e \<notin> set (fst (read_loop b reads))"
proof (induction reads arbitrary: b)
  case Nil
  then show ?case by simp
next
  case (Cons r reads)
  then show ?case
    by (cases r) (simp_all add: read_loop_Chunk process_line_no_error)
qed

lemma catch_handler_not_abort: "OnError e \<in> set (catch_handler e') \<Longrightarrow> error_name e \<noteq> ''AbortError''"
  by (auto simp: catch_handler_def split: if_splits)

lemma streamMessage_finish:
  "streamMessage (FetchResponse r) =
     (if \<not> response_ok r
      then catch_handler (JsError ''Error'' (''HTTP '' @ decimal (response_status r)))
      else case response_body r of
             None \<Rightarrow> catch_handler (JsError ''Error'' ''No response body'')
           | Some reads \<Rightarrow> finish (read_loop [] reads))"
  by (simp add: streamMessage_def finish_def split: option.splits)

lemma finish_Chunk:
  "finish (read_loop b (Chunk v # later)) =
     concat (map process_line (complete_lines (b @ v)))
       @ finish (read_loop (last (split_lines (b @ v))) later)"
  by (cases "read_loop (last (split_lines (b @ v))) later")
     (simp add: read_loop_Chunk finish_def split: option.splits)

lemma finish_not_abort:
  "OnError e \<in> set (finish (read_loop b reads)) \<Longrightarrow> error_name e \<noteq> ''AbortError''"
  using read_loop_no_error [of e b reads]
  by (cases "read_loop b reads")
     (auto simp: finish_def split: option.splits dest: catch_handler_not_abort)

lemma onError_not_abort:
  "OnError e \<in> set (streamMessage fr) \<Longrightarrow> error_name e \<noteq> ''AbortError''"
proof (cases fr)
  case (FetchFailed e')
  assume "OnError e \<in> set (streamMessage fr)"
  then show ?thesis using FetchFailed
    by (auto simp: streamMessage_def dest: catch_handler_not_abort)
next
  case (FetchResponse r)
  assume "OnError e \<in> set (streamMessage fr)"
  then show ?thesis using FetchResponse
    by (auto simp: streamMessage_finish split: if_splits option.splits
        dest: catch_handler_not_abort finish_not_abort)
qed

lemma read_loop_cancel:
  assumes "error_name a = ''AbortError''"
  shows "OnError e \<in> set (finish (read_loop b (take k reads @ [ReadFailed a]))) \<Longrightarrow>
         OnError e \<in> set (finish (read_loop b reads))"
proof (induction reads arbitrary: b k)
  case Nil
  then show ?case using assms by (simp add: finish_def catch_handler_def)
next
  case (Cons r reads)
  show ?case
  proof (cases k)
    case 0
    then show ?thesis using Cons.prems assms by (simp add: finish_def catch_handler_def)
  next
    case (Suc k')
    show ?thesis
    proof (cases r)
      case (Chunk v)
      then show ?thesis using Cons Suc by (auto simp: finish_Chunk)
    next
      case (ReadFailed e')
      then show ?thesis using Cons.prems Suc by simp
    qed
  qed
qed

lemma streamMessage_cancel_after:
  "streamMessage (cancel (AfterReads k) msg (FetchResponse r)) =
     (if \<not> response_ok r
      then catch_handler (JsError ''Error'' (''HTTP '' @ decimal (response_status r)))
      else case response_body r of
             None \<Rightarrow> catch_handler (JsError ''Error'' ''No response body'')
           | Some reads \<Rightarrow>
               if k < length reads
               then finish (read_loop [] (take k reads @ [ReadFailed (JsError ''AbortError'' msg)]))
               else finish (read_loop [] reads))"
  by (cases "response_body r") (simp_all add: streamMessage_finish)

lemma cancel_adds_no_error:
  assumes "OnError e \<in> set (streamMessage (cancel m msg fr))"
  shows "OnError e \<in> set (streamMessage fr)"
proof (cases m)
  case BeforeResponse
  then show ?thesis using assms by (simp add: streamMessage_def catch_handler_def)
next
  case (AfterReads k)
  show ?thesis
  proof (cases fr)
    case (FetchFailed e')
    then show ?thesis using assms AfterReads by simp
  next
    case (FetchResponse r)
    show ?thesis
    proof (cases "response_ok r")
      case False
      then show ?thesis
        using assms AfterReads FetchResponse
        by (simp add: streamMessage_cancel_after streamMessage_finish)
    next
      case True
      show ?thesis
      proof (cases "response_body r")
        case None
        then show ?thesis
          using assms AfterReads FetchResponse True
          by (simp add: streamMessage_cancel_after streamMessage_finish)
      next
        case (Some reads)
        show ?thesis
        proof (cases "k < length reads")
          case False
          then show ?thesis
            using assms AfterReads FetchResponse True Some
            by (simp add: streamMessage_cancel_after streamMessage_finish)
        next
          case less: True
          have "OnError e \<in> set (finish (read_loop []
                  (take k reads @ [ReadFailed (JsError ''AbortError'' msg)])))"
            using assms AfterReads FetchResponse True Some less
            by (simp add: streamMessage_finish)
          then have "OnError e \<in> set (finish (read_loop [] reads))"
            by (rule read_loop_cancel [rotated]) simp
          then show ?thesis
            using FetchResponse True Some by (simp add: streamMessage_finish)
        qed
      qed
    qed
  qed
qed

lemma read_loop_then_failure:
  "read_loop b (map Chunk chunks @ [ReadFailed a]) = (fst (read_loop b (map Chunk chunks)), Some a)"
  by (induction chunks arbitrary: b) (simp_all add: read_loop_Chunk)

lemma cancel_delivered:
  assumes "k < length chunks"
  shows "streamMessage (cancel (AfterReads k) msg (delivered chunks))
         = streamMessage (delivered (take k chunks))"
proof -
  have "streamMessage (cancel (AfterReads k) msg (delivered chunks))
        = finish (read_loop [] (map Chunk (take k chunks) @ [ReadFailed (JsError ''AbortError'' msg)]))"
    using assms by (simp add: streamMessage_finish delivered_def take_map)
  also have "\<dots> = fst (read_loop [] (map Chunk (take k chunks)))"
    by (simp add: read_loop_then_failure finish_def catch_handler_def)
  also have "\<dots> = streamMessage (delivered (take k chunks))"
    using read_loop_chunks [of "[]" "take k chunks"]
    by (simp add: streamMessage_finish delivered_def finish_def)
  finally show ?thesis .
qed




subsection \<open>The parser on examples\<close>





lemma JSON_parse_property_order:
  \<open>JSON_parse ''{"2":"b","a":null,"1":"c","a":false}''
     = Some (JObject [(code_units ''1'', JString (code_units ''c'')),
                      (code_units ''2'', JString (code_units ''b'')),
                      (code_units ''a'', JBool False)])\<close>
  by (simp add: stream_defs index_value_def)





subsection \<open>Claim C6\<close>




subsection \<open>Claim C7\<close>

text \<open>
  C7: the chunk \<open>data: {"content":"Hel\<close> followed, in a second read, by the chunk
  \<open>lo"}\<close> and a newline fires exactly one callback, \<open>onChunk\<close> with \<open>Hello\<close>. The first
  read alone fires nothing: it holds no complete line, and the whole of it is the last
  line that \<open>lines.pop()\<close> keeps as the buffer for the next read.
\<close>

theorem partial_line_is_buffered:
  \<open>streamMessage (delivered [''data: {"content":"Hel'', ''lo"}\<newline>''])
     = [OnChunk (JString (code_units ''Hello''))]
   \<and> streamMessage (delivered [''data: {"content":"Hel'']) = []
   \<and> complete_lines ''data: {"content":"Hel'' = []
   \<and> last (split_lines ''data: {"content":"Hel'') = ''data: {"content":"Hel''\<close>
  by (simp add: stream_defs complete_lines_def read_loop.simps)

subsection \<open>Claim C8\<close>

text \<open>
  C8: the single input \<open>data: [DONE]\<close> with its newline fires no callback at all: neither
  \<open>onChunk\<close>, nor \<open>onDone\<close>, nor \<open>onError\<close>.
\<close>

theorem done_sentinel_is_silent:
  \<open>streamMessage (delivered [''data: [DONE]\<newline>'']) = []\<close>
  by (simp add: stream_defs read_loop.simps)

subsection \<open>Claim C9\<close>

text \<open>
  C9: \<open>onError\<close> is never called with an exception named \<open>AbortError\<close>, whatever the
  network does. Invoking the cancellation handle before the response arrives fires no
  callback. Invoking it at any moment adds no call of \<open>onError\<close>: an \<open>onError\<close> of the
  cancelled run is one the run fires without the cancellation, for a failure that came
  first. And over a stream that delivers its chunks, cancelling when \<open>k\<close> reads have
  completed leaves exactly the callbacks of the first \<open>k\<close> chunks.
\<close>

theorem abort_never_fires_onError:
  "(OnError e \<in> set (streamMessage fr) \<longrightarrow> error_name e \<noteq> ''AbortError'')
   \<and> streamMessage (cancel BeforeResponse msg fr) = []
   \<and> (OnError e \<in> set (streamMessage (cancel m msg fr)) \<longrightarrow> OnError e \<in> set (streamMessage fr))
   \<and> (k < length chunks \<longrightarrow>
        streamMessage (cancel (AfterReads k) msg (delivered chunks))
          = streamMessage (delivered (take k chunks)))"
  using onError_not_abort [of e fr] cancel_adds_no_error [of e m msg fr]
    cancel_delivered [of k chunks msg]
  by (simp add: streamMessage_def catch_handler_def)

theorem abort_never_fires_onError_witness:
  \<open>OnError (JsError ''TypeError'' ''Failed to fetch'')
      \<in> set (streamMessage (FetchFailed (JsError ''TypeError'' ''Failed to fetch'')))
   \<and> error_name (JsError ''TypeError'' ''Failed to fetch'') \<noteq> ''AbortError''
   \<and> (1::nat) < length [''data: {"content":"Hel'', ''lo"}\<newline>'']
   \<and> streamMessage (cancel (AfterReads 1) ''The user aborted a request.''
         (delivered [''data: {"content":"Hel'', ''lo"}\<newline>''])) = []\<close>
proof -
  have fired: "OnError (JsError ''TypeError'' ''Failed to fetch'')
      \<in> set (streamMessage (FetchFailed (JsError ''TypeError'' ''Failed to fetch'')))"
    by (simp add: streamMessage_def catch_handler_def)
  have first: \<open>streamMessage (delivered (take 1 [''data: {"content":"Hel'', ''lo"}\<newline>''])) = []\<close>
    by (simp add: stream_defs read_loop.simps)
  have two: \<open>(1::nat) < length [''data: {"content":"Hel'', ''lo"}\<newline>'']\<close>
    by simp
  have "error_name (JsError ''TypeError'' ''Failed to fetch'') \<noteq> ''AbortError''"
    using abort_never_fires_onError
      [of "JsError ''TypeError'' ''Failed to fetch''"
          "FetchFailed (JsError ''TypeError'' ''Failed to fetch'')"
          "[]" BeforeResponse 0 "[]"] fired
    by blast
  moreover have \<open>streamMessage (cancel (AfterReads 1) ''The user aborted a request.''
         (delivered [''data: {"content":"Hel'', ''lo"}\<newline>''])) = []\<close>
    using abort_never_fires_onError
      [of "JsError ''TypeError'' ''Failed to fetch''"
          "FetchFailed (JsError ''TypeError'' ''Failed to fetch'')"
          "''The user aborted a request.''" BeforeResponse 1
          \<open>[''data: {"content":"Hel'', ''lo"}\<newline>'']\<close>] two first
    by (simp only: simp_thms)
  ultimately show ?thesis using fired two by blast
qed

end
